theory Spec2Isabelle
  imports Main
begin

section \<open>JavaScript primitives the page relies on\<close>

text \<open>
  The nine picture grid is a React page (\<^verbatim>\<open>Index\<close>) with an image grid component
  (\<^verbatim>\<open>ImageGrid\<close>, \<^verbatim>\<open>ImageCell\<close>). Strings are modelled as \<^typ>\<open>string\<close>, a slot of the
  grid as \<^typ>\<open>string option\<close> (\<^verbatim>\<open>string | null\<close>), the array of slots as a list.
\<close>

type_synonym url = string

text \<open>\<^verbatim>\<open>s.startsWith(p)\<close>.\<close>

definition startsWith :: "string \<Rightarrow> string \<Rightarrow> bool" where
  "startsWith s p = (take (length p) s = p)"

text \<open>
  \<^verbatim>\<open>xs[i] = v\<close> on a JavaScript array: inside the array the entry is replaced, beyond its
  end the array grows and the entries in between are holes (read as \<^verbatim>\<open>undefined\<close>, which
  is falsy like \<^verbatim>\<open>null\<close> and printed as \<^verbatim>\<open>null\<close> by \<^verbatim>\<open>JSON.stringify\<close>; they are
  modelled as \<^term>\<open>None\<close>).
\<close>

definition js_assign :: "'a option list \<Rightarrow> nat \<Rightarrow> 'a option \<Rightarrow> 'a option list" where
  "js_assign xs i v =
     (if i < length xs then xs[i := v]
      else xs @ replicate (i - length xs) None @ [v])"

text \<open>\<^verbatim>\<open>xs[i]\<close> read: \<^verbatim>\<open>undefined\<close> beyond the end, modelled as \<^term>\<open>None\<close>.\<close>

definition js_index :: "'a option list \<Rightarrow> nat \<Rightarrow> 'a option" where
  "js_index xs i = (if i < length xs then xs ! i else None)"

text \<open>The class \<^verbatim>\<open>\d\<close> of a JavaScript regular expression: the ten ASCII digits.\<close>

definition is_digit :: "char \<Rightarrow> bool" where
  "is_digit c = (48 \<le> (of_char c :: nat) \<and> (of_char c :: nat) \<le> 57)"

text \<open>
  An attempt to match \<^verbatim>\<open>slot-(\d+)-\<close> at the very start of the string; the result is the
  capture group. The digits are matched greedily, and since the character after them
  has to be \<^verbatim>\<open>-\<close>, giving digits back never helps: the longest run decides.
  This is also the whole of the anchored expression \<^verbatim>\<open>/^slot-(\d+)-/\<close>.
\<close>

definition match_slot_anchored :: "string \<Rightarrow> string option" where
  "match_slot_anchored s =
     (if startsWith s ''slot-'' then
        (let rest = drop 5 s;
             ds = takeWhile is_digit rest;
             after = dropWhile is_digit rest
         in if ds \<noteq> [] \<and> startsWith after ''-'' then Some ds else None)
      else None)"

text \<open>
  \<^verbatim>\<open>name.match(/slot-(\d+)-/)\<close>: the expression is not anchored and not global, so the
  leftmost position at which it matches gives the capture group \<^verbatim>\<open>match[1]\<close>;
  \<^term>\<open>None\<close> is the \<^verbatim>\<open>null\<close> of a failed match.
\<close>

fun match_slot :: "string \<Rightarrow> string option" where
  "match_slot [] = None"
| "match_slot (c # cs) =
     (case match_slot_anchored (c # cs) of
        Some ds \<Rightarrow> Some ds
      | None \<Rightarrow> match_slot cs)"

text \<open>
  \<^verbatim>\<open>parseInt(ds)\<close> on the capture group, which is a non-empty run of digits: its decimal
  value. (JavaScript numbers are doubles; a run of digits worth at most 9 is exact, and
  one worth 10 or more is read as a number that is at least 10, so the range test the
  page makes on the result has the same outcome on the exact value.)
\<close>

definition parseInt :: "string \<Rightarrow> nat" where
  "parseInt ds = foldl (\<lambda>n c. 10 * n + ((of_char c :: nat) - 48)) 0 (takeWhile is_digit ds)"

text \<open>Number to string conversion of a template literal, for a non-negative integer.\<close>

definition digit_char :: "nat \<Rightarrow> char" where
  "digit_char d = ''0123456789'' ! d"

fun show_nat :: "nat \<Rightarrow> string" where
  "show_nat n =
     (if n < 10 then [digit_char n]
      else show_nat (n div 10) @ [digit_char (n mod 10)])"

declare show_nat.simps [simp del]

text \<open>
  \<^verbatim>\<open>(size/1024/1024).toFixed(2)\<close>. Both divisions are by a power of two and so exact on
  a double; \<^verbatim>\<open>toFixed(2)\<close> prints the integer \<open>n\<close> with \<open>n / 100\<close> closest to that
  quotient, the larger one on a tie.
\<close>

definition toFixed2_MB :: "nat \<Rightarrow> string" where
  "toFixed2_MB sz =
     (let n = (200 * sz + 1048576) div 2097152
      in show_nat (n div 100) @ ''.'' @ show_nat (n mod 100 div 10) @ show_nat (n mod 10))"

text \<open>\<^verbatim>\<open>s.split('/')\<close>: the pieces between the separators, never an empty array.\<close>

fun split_slash :: "string \<Rightarrow> string list" where
  "split_slash [] = [[]]"
| "split_slash (c # cs) =
     (if c = CHR ''/'' then [] # split_slash cs
      else (case split_slash cs of
              [] \<Rightarrow> [[c]]
            | p # ps \<Rightarrow> (c # p) # ps))"

section \<open>The page state and what the page does to the outside\<close>

text \<open>
  The state of \<^verbatim>\<open>Index\<close> (its \<^verbatim>\<open>useState\<close> cells). The cell \<^verbatim>\<open>text\<close> is called
  \<open>text_value\<close> here.
\<close>

record page_state =
  images :: "url option list"
  text_value :: string
  isLoading :: bool
  isSaving :: bool
  uploadingSlots :: "nat list"

text \<open>The initial values of the \<^verbatim>\<open>useState\<close> cells; \<^verbatim>\<open>Array(9).fill(null)\<close>.\<close>

definition initial_state :: page_state where
  "initial_state =
     \<lparr>images = replicate 9 None, text_value = [], isLoading = True, isSaving = False,
      uploadingSlots = []\<rparr>"

datatype level = Error | Warning | Info

text \<open>
  Everything observable a handler does besides changing the state, in the order it does
  it: the \<^verbatim>\<open>app-debug\<close> events (their \<^verbatim>\<open>details\<close> payload is left out), the toasts (title,
  description, whether the variant is \<^verbatim>\<open>destructive\<close>), \<^verbatim>\<open>console.error\<close>, the calls to
  the storage bucket, the callbacks \<^verbatim>\<open>onStartUpload\<close>, \<^verbatim>\<open>onFinishUpload\<close> and
  \<^verbatim>\<open>onImagesChange\<close> of the grid, and the file download.
\<close>

datatype event =
    Debug level string
  | Toast string string bool
  | ConsoleError string
  | StorageList
  | StorageUpload string
  | StorageRemove "string list"
  | OnStartUpload nat
  | OnFinishUpload nat
  | OnImagesChange "url option list"
  | Download string string

text \<open>An error object of the storage client: its \<^verbatim>\<open>message\<close>.\<close>

type_synonym storage_error = string

text \<open>\<^verbatim>\<open>error.message || fallback\<close>: the empty message is falsy.\<close>

definition message_or :: "storage_error \<Rightarrow> string \<Rightarrow> string" where
  "message_or msg fallback = (if msg \<noteq> [] then msg else fallback)"

section \<open>Reconcile: loading the grid from the bucket\<close>

text \<open>An entry of the listing; only its \<^verbatim>\<open>name\<close> is read.\<close>

record file_object =
  name :: string

text \<open>
  What \<^verbatim>\<open>await supabase.storage.from(...).list()\<close> gives: \<^verbatim>\<open>{data, error}\<close> with an
  error, or with the files (\<^verbatim>\<open>data\<close> may be \<^verbatim>\<open>null\<close>); or the promise is rejected and
  the \<^verbatim>\<open>await\<close> throws.
\<close>

datatype list_result =
    ListData "file_object list option"
  | ListError storage_error
  | ListThrows storage_error

text \<open>
  The body of the loop \<^verbatim>\<open>for (const file of files)\<close>. The signed-in user is modelled by
  the \<^verbatim>\<open>id\<close>, \<^term>\<open>None\<close> when \<^verbatim>\<open>user\<close> is \<^verbatim>\<open>null\<close>; an object is truthy whatever its id.
  \<^verbatim>\<open>getPublicUrl\<close> is the storage client's, a parameter.
\<close>

definition process_file ::
  "string option \<Rightarrow> (string \<Rightarrow> url) \<Rightarrow> url option list \<Rightarrow> file_object \<Rightarrow> url option list"
where
  "process_file user getPublicUrl newImages file =
     (let userPrefix = (case user of Some uid \<Rightarrow> ''user-'' @ uid | None \<Rightarrow> [])
      in if user \<noteq> None \<and> startsWith (name file) userPrefix then
           (case match_slot (name file) of
              Some m1 \<Rightarrow>
                if m1 \<noteq> [] then
                  (let slotIndex = int (parseInt m1) - 1
                   in if slotIndex \<ge> 0 \<and> slotIndex < 9
                      then js_assign newImages (nat slotIndex) (Some (getPublicUrl (name file)))
                      else newImages)
                else newImages
            | None \<Rightarrow> newImages)
         else if userPrefix = [] \<and> match_slot_anchored (name file) \<noteq> None then
           (case match_slot_anchored (name file) of
              Some m1 \<Rightarrow>
                if m1 \<noteq> [] then
                  (let slotIndex = int (parseInt m1) - 1
                   in if slotIndex \<ge> 0 \<and> slotIndex < 9
                      then js_assign newImages (nat slotIndex) (Some (getPublicUrl (name file)))
                      else newImages)
                else newImages
            | None \<Rightarrow> newImages)
         else newImages)"

text \<open>The loop over the listing, started on \<^verbatim>\<open>Array(9).fill(null)\<close>.\<close>

definition reconcile ::
  "string option \<Rightarrow> (string \<Rightarrow> url) \<Rightarrow> file_object list \<Rightarrow> url option list"
where
  "reconcile user getPublicUrl files =
     foldl (process_file user getPublicUrl) (replicate 9 None) files"

text \<open>
  \<^verbatim>\<open>loadImagesFromSupabase\<close>, run by the effect on \<^verbatim>\<open>[user, isAuthLoading]\<close>. The listing
  the bucket would return is a parameter; it is only asked for when the two early
  returns are passed. The result is the state after the function and its \<^verbatim>\<open>finally\<close>
  block, with what it did.
\<close>

definition loadImagesFromSupabase ::
  "string option \<Rightarrow> bool \<Rightarrow> list_result \<Rightarrow> (string \<Rightarrow> url) \<Rightarrow> page_state
     \<Rightarrow> page_state \<times> event list"
where
  "loadImagesFromSupabase user isAuthLoading listing getPublicUrl s =
     (if user = None \<and> \<not> isAuthLoading then
        (s\<lparr>images := replicate 9 None, isLoading := False\<rparr>, [])
      else if isAuthLoading then (s, [])
      else
        (case listing of
           ListError msg \<Rightarrow>
             (s\<lparr>isLoading := False\<rparr>,
              [StorageList,
               ConsoleError ''Error loading images:'',
               Debug Error ''Failed to load images from storage'',
               Toast ''Failed to load images''
                 (message_or msg ''There was an error loading your images from storage.'') True])
         | ListThrows msg \<Rightarrow>
             (s\<lparr>isLoading := False\<rparr>,
              [StorageList,
               ConsoleError ''Error loading images:'',
               Debug Error ''Failed to load images from storage'',
               Toast ''Failed to load images''
                 (message_or msg ''There was an error loading your images from storage.'') True])
         | ListData files \<Rightarrow>
             (case files of
                Some fs \<Rightarrow>
                  if length fs > 0 then
                    (s\<lparr>images := reconcile user getPublicUrl fs, isLoading := False\<rparr>,
                     [StorageList, Debug Info ''Files loaded from storage''])
                  else
                    (s\<lparr>isLoading := False\<rparr>,
                     [StorageList, Debug Info ''Files loaded from storage''])
              | None \<Rightarrow>
                  (s\<lparr>isLoading := False\<rparr>,
                   [StorageList, Debug Info ''Files loaded from storage'']))))"

section \<open>The image grid: adding and removing an image\<close>

text \<open>A \<^verbatim>\<open>File\<close> picked in the file input: its \<^verbatim>\<open>name\<close>, \<^verbatim>\<open>type\<close> and \<^verbatim>\<open>size\<close>.\<close>

record picked_file =
  file_name :: string
  file_type :: string
  file_size :: nat

text \<open>
  What \<^verbatim>\<open>await ... .upload(fileName, file, ...)\<close> gives: \<^verbatim>\<open>{data, error}\<close> with the
  stored \<^verbatim>\<open>data.path\<close>, or with an error; or the promise is rejected and the
  \<^verbatim>\<open>await\<close> throws.
\<close>

datatype upload_result =
    UploadData string
  | UploadError storage_error
  | UploadThrows storage_error

text \<open>The same for \<^verbatim>\<open>await ... .remove([fileName])\<close>.\<close>

datatype remove_result =
    RemoveOk
  | RemoveError storage_error
  | RemoveThrows storage_error

text \<open>
  The object name of an upload. \<^verbatim>\<open>userId ? ... : ...\<close>: a \<^verbatim>\<open>null\<close> id and the empty
  string are both falsy. \<open>now\<close> is \<^verbatim>\<open>Date.now()\<close>.
\<close>

definition upload_name :: "string option \<Rightarrow> nat \<Rightarrow> nat \<Rightarrow> string" where
  "upload_name userId index now =
     (case userId of
        Some uid \<Rightarrow>
          if uid \<noteq> [] then ''user-'' @ uid @ ''-slot-'' @ show_nat (index + 1) @ ''-'' @ show_nat now
          else ''slot-'' @ show_nat (index + 1) @ ''-'' @ show_nat now
      | None \<Rightarrow> ''slot-'' @ show_nat (index + 1) @ ''-'' @ show_nat now)"

text \<open>
  The callbacks \<^verbatim>\<open>Index\<close> hands to the grid: \<^verbatim>\<open>handleImagesChange\<close>,
  \<^verbatim>\<open>handleStartImageUpload\<close> and \<^verbatim>\<open>handleFinishImageUpload\<close>.
\<close>

definition handleImagesChange :: "url option list \<Rightarrow> page_state \<Rightarrow> page_state" where
  "handleImagesChange newImages s = s\<lparr>images := newImages\<rparr>"

definition handleStartImageUpload :: "nat \<Rightarrow> page_state \<Rightarrow> page_state" where
  "handleStartImageUpload index s = s\<lparr>uploadingSlots := uploadingSlots s @ [index]\<rparr>"

definition handleFinishImageUpload :: "nat \<Rightarrow> page_state \<Rightarrow> page_state" where
  "handleFinishImageUpload index s =
     s\<lparr>uploadingSlots := filter (\<lambda>slot. slot \<noteq> index) (uploadingSlots s)\<rparr>"

text \<open>
  \<^verbatim>\<open>handleImageChange(index, file)\<close> is asynchronous. It copies the array it was
  rendered with (\<^verbatim>\<open>newImages = [...images]\<close>), calls the bucket, and goes on when the call
  returns; other handlers may run in between. Each branch is therefore given in two
  parts, cut at its \<^verbatim>\<open>await\<close>.

  With a file, up to the \<^verbatim>\<open>await\<close> of the upload: \<open>userId\<close> is the prop of the grid,
  \<open>now\<close> the clock.
\<close>

definition upload_begin ::
  "string option \<Rightarrow> nat \<Rightarrow> nat \<Rightarrow> page_state \<Rightarrow> page_state \<times> event list"
where
  "upload_begin userId now index s =
     (let fileName = upload_name userId index now
      in (handleStartImageUpload index s,
          [OnStartUpload index,
           Debug Info (''Starting upload to Supabase for slot '' @ show_nat (index + 1)),
           StorageUpload fileName]))"

text \<open>
  With a file, from the result of the upload on: the rest of the \<^verbatim>\<open>try\<close> block, the
  \<^verbatim>\<open>catch\<close> and the \<^verbatim>\<open>finally\<close>. \<open>newImages\<close> is the copy made at the start, \<open>s\<close>
  the state of the page when the upload returns.
\<close>

definition upload_end ::
  "(string \<Rightarrow> url) \<Rightarrow> nat \<Rightarrow> url option list \<Rightarrow> upload_result \<Rightarrow> page_state
     \<Rightarrow> page_state \<times> event list"
where
  "upload_end getPublicUrl index newImages res s =
     (case res of
        UploadData path \<Rightarrow>
          (let publicUrl = getPublicUrl path;
               newImages' = js_assign newImages index (Some publicUrl)
           in (handleFinishImageUpload index (handleImagesChange newImages' s),
               [Debug Info (''Upload successful for slot '' @ show_nat (index + 1)),
                OnImagesChange newImages',
                Debug Info (''Public URL obtained for slot '' @ show_nat (index + 1)),
                OnFinishUpload index]))
      | UploadError msg \<Rightarrow>
          (handleFinishImageUpload index s,
           [Debug Error (''Supabase upload failed for slot '' @ show_nat (index + 1)),
            ConsoleError ''Error uploading file:'',
            Debug Error ''Error uploading file'',
            Toast ''Upload failed''
              (message_or msg ''There was an error uploading your image. Please try again.'') True,
            OnFinishUpload index])
      | UploadThrows msg \<Rightarrow>
          (handleFinishImageUpload index s,
           [ConsoleError ''Error uploading file:'',
            Debug Error ''Error uploading file'',
            Toast ''Upload failed''
              (message_or msg ''There was an error uploading your image. Please try again.'') True,
            OnFinishUpload index]))"

text \<open>
  Without a file (the removal): \<^verbatim>\<open>currentImageUrl = images[index]\<close>, and when it is
  truthy (the empty string is not) the object named by the last piece of the URL is
  removed from the bucket. \<open>remove_call\<close> is that object name, \<^term>\<open>None\<close> when no call
  is made.
\<close>

definition remove_name :: "url \<Rightarrow> string" where
  "remove_name currentImageUrl = last (split_slash currentImageUrl)"

definition remove_call :: "url option list \<Rightarrow> nat \<Rightarrow> string option" where
  "remove_call imgs index =
     (case js_index imgs index of
        Some currentImageUrl \<Rightarrow>
          if currentImageUrl \<noteq> [] then Some (remove_name currentImageUrl) else None
      | None \<Rightarrow> None)"

text \<open>What the removal does up to the \<^verbatim>\<open>await\<close> of the call, if it makes one.\<close>

definition remove_begin :: "nat \<Rightarrow> page_state \<Rightarrow> event list" where
  "remove_begin index s =
     (case remove_call (images s) index of
        Some fileName \<Rightarrow>
          [Debug Info (''Removing image from slot '' @ show_nat (index + 1)),
           StorageRemove [fileName]]
      | None \<Rightarrow> [])"

text \<open>
  The rest of the removal: the result of the call is logged (\<open>res\<close> is \<^term>\<open>None\<close> when
  none was made), and then \<^verbatim>\<open>newImages[index] = null; onImagesChange(newImages)\<close>.
\<close>

definition remove_end ::
  "nat \<Rightarrow> url option list \<Rightarrow> remove_result option \<Rightarrow> page_state \<Rightarrow> page_state \<times> event list"
where
  "remove_end index newImages res s =
     (let newImages' = js_assign newImages index None
      in (handleImagesChange newImages' s,
          (case res of
             None \<Rightarrow> []
           | Some RemoveOk \<Rightarrow>
               [Debug Info (''Successfully removed image from slot '' @ show_nat (index + 1))]
           | Some (RemoveError msg) \<Rightarrow>
               [ConsoleError ''Error removing file:'', Debug Error ''Error removing file'']
           | Some (RemoveThrows msg) \<Rightarrow>
               [ConsoleError ''Error removing file:'',
                Debug Error ''Exception when removing file''])
          @ [OnImagesChange newImages']))"

text \<open>The answers of the bucket a handler may need while it runs.\<close>

record bucket =
  getPublicUrl :: "string \<Rightarrow> url"
  upload_answer :: upload_result
  remove_answer :: remove_result

text \<open>
  \<^verbatim>\<open>handleImageChange\<close> run from its start to its end with no other handler in
  between.
\<close>

definition handleImageChange ::
  "bucket \<Rightarrow> string option \<Rightarrow> nat \<Rightarrow> nat \<Rightarrow> picked_file option \<Rightarrow> page_state
     \<Rightarrow> page_state \<times> event list"
where
  "handleImageChange b userId now index fileOpt s =
     (let newImages = images s
      in case fileOpt of
           Some f \<Rightarrow>
             (case upload_begin userId now index s of
                (s1, evs1) \<Rightarrow>
                  (case upload_end (getPublicUrl b) index newImages (upload_answer b) s1 of
                     (s2, evs2) \<Rightarrow> (s2, evs1 @ evs2)))
         | None \<Rightarrow>
             (let evs1 = remove_begin index s;
                  res = (if remove_call (images s) index \<noteq> None
                         then Some (remove_answer b) else None)
              in case remove_end index newImages res s of
                   (s2, evs2) \<Rightarrow> (s2, evs1 @ evs2)))"

text \<open>
  \<^verbatim>\<open>handleFileChange\<close> of a cell: the checks on the picked file, then
  \<^verbatim>\<open>onImageChange(index, file)\<close>, which is \<^verbatim>\<open>handleImageChange\<close>.
\<close>

definition handleFileChange ::
  "bucket \<Rightarrow> string option \<Rightarrow> nat \<Rightarrow> nat \<Rightarrow> picked_file option \<Rightarrow> page_state
     \<Rightarrow> page_state \<times> event list"
where
  "handleFileChange b userId now index fileOpt s =
     (case fileOpt of
        None \<Rightarrow> (s, [])
      | Some f \<Rightarrow>
          if \<not> startsWith (file_type f) ''image/'' then
            (s, [Toast ''Invalid file type''
                   ''Invalid file type - please select an image file'' True,
                 Debug Error ''Invalid file type - please select an image file''])
          else if file_size f > 5 * 1024 * 1024 then
            (let errorMessage =
                   ''File too large ('' @ toFixed2_MB (file_size f) @ ''MB) - limit is 5MB''
             in (s, [Toast ''File too large'' errorMessage True, Debug Error errorMessage]))
          else
            (case handleImageChange b userId now index (Some f) s of
               (s', evs) \<Rightarrow>
                 (s', Debug Info (''File selected for upload in slot '' @ show_nat (index + 1))
                        # evs)))"

text \<open>\<^verbatim>\<open>handleRemoveImage\<close> of a cell: \<^verbatim>\<open>onImageChange(index, null)\<close>.\<close>

definition handleRemoveImage ::
  "bucket \<Rightarrow> string option \<Rightarrow> nat \<Rightarrow> nat \<Rightarrow> page_state \<Rightarrow> page_state \<times> event list"
where
  "handleRemoveImage b userId now index s = handleImageChange b userId now index None s"

section \<open>The page as a transition system\<close>

text \<open>
  A handler that waits for the bucket: the slot and the copy of the array it holds.
\<close>

datatype pending =
    PendingUpload nat "url option list"
  | PendingRemove nat "url option list"

text \<open>
  The states the page can be in, with the handlers that wait: the page starts in
  \<open>initial_state\<close>; the effect may run \<^verbatim>\<open>loadImagesFromSupabase\<close>; the editor may change
  the text; a cell of the rendered grid (its index is one of the array) may start an
  upload or a removal, and a waiting handler may go on with any answer of the bucket.
\<close>

inductive reachable :: "page_state \<Rightarrow> pending list \<Rightarrow> bool" where
  start: "reachable initial_state []"
| load:
    "reachable s ps \<Longrightarrow>
     reachable (fst (loadImagesFromSupabase user isAuthLoading listing url_of s)) ps"
| edit: "reachable s ps \<Longrightarrow> reachable (s\<lparr>text_value := t\<rparr>) ps"
| upload_started:
    "reachable s ps \<Longrightarrow> index < length (images s) \<Longrightarrow>
     reachable (fst (upload_begin userId now index s)) (PendingUpload index (images s) # ps)"
| upload_ended:
    "reachable s ps \<Longrightarrow> PendingUpload index newImages \<in> set ps \<Longrightarrow>
     reachable (fst (upload_end url_of index newImages res s))
       (remove1 (PendingUpload index newImages) ps)"
| remove_started:
    "reachable s ps \<Longrightarrow> index < length (images s) \<Longrightarrow>
     remove_call (images s) index \<noteq> None \<Longrightarrow>
     reachable s (PendingRemove index (images s) # ps)"
| remove_ended:
    "reachable s ps \<Longrightarrow> PendingRemove index newImages \<in> set ps \<Longrightarrow>
     reachable (fst (remove_end index newImages (Some res) s))
       (remove1 (PendingRemove index newImages) ps)"
| remove_at_once:
    "reachable s ps \<Longrightarrow> index < length (images s) \<Longrightarrow>
     remove_call (images s) index = None \<Longrightarrow>
     reachable (fst (remove_end index (images s) None s)) ps"

section \<open>Export: the download\<close>

text \<open>
  A JSON value, as far as the page builds one: \<^verbatim>\<open>null\<close>, strings, arrays and objects
  (the properties of an object in their order).
\<close>

datatype json =
    JNull
  | JString string
  | JArray "json list"
  | JObject "(string \<times> json) list"

text \<open>
  \<^verbatim>\<open>QuoteJSONString\<close> of the language standard, which \<^verbatim>\<open>JSON.stringify\<close> applies to every
  string and property name: the short escapes, \<^verbatim>\<open>\u00xx\<close> (lower case) for the other
  control characters, everything else as it is. Strings are modelled as the bytes of their
  UTF-8 form, which is what the downloaded file holds; unpaired surrogates, which have no
  such form, are outside the model.
\<close>

definition hex_digit :: "nat \<Rightarrow> char" where
  "hex_digit n = ''0123456789abcdef'' ! n"

definition escape_char :: "char \<Rightarrow> string" where
  "escape_char c =
     (if c = CHR 0x08 then [CHR 0x5C, CHR ''b'']
      else if c = CHR 0x09 then [CHR 0x5C, CHR ''t'']
      else if c = CHR 0x0A then [CHR 0x5C, CHR ''n'']
      else if c = CHR 0x0C then [CHR 0x5C, CHR ''f'']
      else if c = CHR 0x0D then [CHR 0x5C, CHR ''r'']
      else if c = CHR 0x22 then [CHR 0x5C, CHR 0x22]
      else if c = CHR 0x5C then [CHR 0x5C, CHR 0x5C]
      else if (of_char c :: nat) < 32 then
        [CHR 0x5C, CHR ''u'', CHR ''0'', CHR ''0'',
         hex_digit ((of_char c :: nat) div 16), hex_digit ((of_char c :: nat) mod 16)]
      else [c])"

definition QuoteJSONString :: "string \<Rightarrow> string" where
  "QuoteJSONString s = CHR 0x22 # concat (map escape_char s) @ [CHR 0x22]"

text \<open>
  \<^verbatim>\<open>JSON.stringify(value, null, 2)\<close>: \<^verbatim>\<open>SerializeJSONProperty\<close> with the gap of two spaces,
  \<open>d\<close> the depth of nesting. An empty array or object is printed without a line break,
  the others with one entry per line.
\<close>

definition indent_of :: "nat \<Rightarrow> string" where
  "indent_of d = replicate (2 * d) CHR '' ''"

fun join_with :: "string \<Rightarrow> string list \<Rightarrow> string" where
  "join_with sep [] = []"
| "join_with sep [x] = x"
| "join_with sep (x # y # ys) = x @ sep @ join_with sep (y # ys)"

fun SerializeJSONProperty :: "nat \<Rightarrow> json \<Rightarrow> string" where
  "SerializeJSONProperty d JNull = ''null''"
| "SerializeJSONProperty d (JString s) = QuoteJSONString s"
| "SerializeJSONProperty d (JArray vs) =
     (if vs = [] then ''[]''
      else ''['' @ [CHR 0x0A] @ indent_of (d + 1) @
           join_with ('','' @ [CHR 0x0A] @ indent_of (d + 1))
             (map (SerializeJSONProperty (d + 1)) vs) @
           [CHR 0x0A] @ indent_of d @ '']'')"
| "SerializeJSONProperty d (JObject kvs) =
     (if kvs = [] then ''{}''
      else ''{'' @ [CHR 0x0A] @ indent_of (d + 1) @
           join_with ('','' @ [CHR 0x0A] @ indent_of (d + 1))
             (map (\<lambda>(k, v). QuoteJSONString k @ '': '' @ SerializeJSONProperty (d + 1) v) kvs) @
           [CHR 0x0A] @ indent_of d @ ''}'')"

text \<open>
  \<^verbatim>\<open>handleDownload\<close>: the object \<^verbatim>\<open>{images, text}\<close> printed with \<^verbatim>\<open>JSON.stringify\<close> and
  offered as the file \<^verbatim>\<open>nine-picture-grid.json\<close>, and a toast. The state is not changed.
\<close>

definition slot_json :: "url option \<Rightarrow> json" where
  "slot_json img = (case img of None \<Rightarrow> JNull | Some u \<Rightarrow> JString u)"

definition dataToExport :: "page_state \<Rightarrow> json" where
  "dataToExport s =
     JObject [(''images'', JArray (map slot_json (images s))), (''text'', JString (text_value s))]"

definition JSON_stringify :: "json \<Rightarrow> string" where
  "JSON_stringify v = SerializeJSONProperty 0 v"

definition handleDownload :: "page_state \<Rightarrow> page_state \<times> event list" where
  "handleDownload s =
     (let jsonString = JSON_stringify (dataToExport s)
      in (s, [Download ''nine-picture-grid.json'' jsonString,
              Toast ''Download started'' ''Your grid data is being downloaded'' False]))"

section \<open>Notions used to state the properties\<close>

text \<open>
  The slot the body of the loop writes for an entry of the listing, if it writes one:
  \<open>process_file_slot_of\<close> below shows that this is what \<open>process_file\<close> does.
\<close>

definition slot_of :: "string option \<Rightarrow> file_object \<Rightarrow> nat option" where
  "slot_of user file =
     (case user of
        Some uid \<Rightarrow>
          if startsWith (name file) (''user-'' @ uid) then
            (case match_slot (name file) of
               Some m1 \<Rightarrow>
                 if 1 \<le> parseInt m1 \<and> parseInt m1 \<le> 9 then Some (parseInt m1 - 1) else None
             | None \<Rightarrow> None)
          else None
      | None \<Rightarrow>
          (case match_slot_anchored (name file) of
             Some m1 \<Rightarrow>
               if 1 \<le> parseInt m1 \<and> parseInt m1 \<le> 9 then Some (parseInt m1 - 1) else None
           | None \<Rightarrow> None))"

text \<open>
  An entry of the listing matches slot \<open>i\<close> for the user \<open>uid\<close>: its name starts with
  \<^verbatim>\<open>user-{uid}\<close> and the number parsed from \<^verbatim>\<open>slot-(\d+)-\<close>, minus one, is \<open>i\<close>.
\<close>

definition matches_slot :: "string \<Rightarrow> file_object \<Rightarrow> nat \<Rightarrow> bool" where
  "matches_slot uid f i =
     (startsWith (name f) (''user-'' @ uid) \<and>
      (case match_slot (name f) of
         Some ds \<Rightarrow> int (parseInt ds) - 1 = int i
       | None \<Rightarrow> False))"

text \<open>A public URL scheme for the examples.\<close>

definition example_url :: "string \<Rightarrow> url" where
  "example_url path = ''https://cdn.example/'' @ path"

text \<open>Kinds of events, to say what a handler did and what it did not do.\<close>

definition is_network_call :: "event \<Rightarrow> bool" where
  "is_network_call e =
     (case e of StorageList \<Rightarrow> True | StorageUpload n \<Rightarrow> True | StorageRemove ns \<Rightarrow> True
      | _ \<Rightarrow> False)"

definition is_upload_notification :: "event \<Rightarrow> bool" where
  "is_upload_notification e =
     (case e of OnStartUpload i \<Rightarrow> True | OnFinishUpload i \<Rightarrow> True | _ \<Rightarrow> False)"

definition is_toast :: "event \<Rightarrow> bool" where
  "is_toast e = (case e of Toast t d v \<Rightarrow> True | _ \<Rightarrow> False)"

definition is_images_change :: "event \<Rightarrow> bool" where
  "is_images_change e = (case e of OnImagesChange xs \<Rightarrow> True | _ \<Rightarrow> False)"

text \<open>Examples: a bucket with given answers, a picked file, a grid with one image.\<close>

definition example_bucket :: "upload_result \<Rightarrow> remove_result \<Rightarrow> bucket" where
  "example_bucket up rm = \<lparr>getPublicUrl = example_url, upload_answer = up, remove_answer = rm\<rparr>"

definition example_file :: picked_file where
  "example_file = \<lparr>file_name = ''cat.png'', file_type = ''image/png'', file_size = 2048\<rparr>"

definition example_state :: page_state where
  "example_state =
     initial_state\<lparr>images :=
        [Some ''https://cdn.example/user-42-slot-1-1000'', None, None, None, None, None, None,
         None, None],
      isLoading := False\<rparr>"

text \<open>
  What a waiting handler holds is sound: a slot of the grid and a copy of nine entries.
\<close>

definition pending_ok :: "pending \<Rightarrow> bool" where
  "pending_ok p =
     (case p of
        PendingUpload i newImages \<Rightarrow> i < 9 \<and> length newImages = 9
      | PendingRemove i newImages \<Rightarrow> i < 9 \<and> length newImages = 9)"

text \<open>
  A reader for JSON documents, to state that the exported file can be read back: the JSON
  grammar for \<^verbatim>\<open>null\<close>, strings, arrays and objects, with white space between the tokens.
  \<open>parse_string_body\<close> reads a string after its opening quote. The three mutually
  recursive readers take fuel, which \<open>JSON_parse\<close> gives in proportion to the length of the
  document; \<open>JSON_parse_stringify\<close> below shows that this is enough for every printed
  value.
\<close>

definition is_ws :: "char \<Rightarrow> bool" where
  "is_ws c = (c = CHR '' '' \<or> c = CHR 0x0A \<or> c = CHR 0x0D \<or> c = CHR 0x09)"

definition skip_ws :: "string \<Rightarrow> string" where
  "skip_ws s = dropWhile is_ws s"

definition hex_val :: "char \<Rightarrow> nat option" where
  "hex_val c =
     (let n = (of_char c :: nat)
      in if 48 \<le> n \<and> n \<le> 57 then Some (n - 48)
         else if 97 \<le> n \<and> n \<le> 102 then Some (n - 87)
         else if 65 \<le> n \<and> n \<le> 70 then Some (n - 55)
         else None)"

definition unescape :: "char \<Rightarrow> char option" where
  "unescape e =
     (if e = CHR ''b'' then Some (CHR 0x08)
      else if e = CHR ''t'' then Some (CHR 0x09)
      else if e = CHR ''n'' then Some (CHR 0x0A)
      else if e = CHR ''f'' then Some (CHR 0x0C)
      else if e = CHR ''r'' then Some (CHR 0x0D)
      else if e = CHR 0x22 then Some (CHR 0x22)
      else if e = CHR 0x5C then Some (CHR 0x5C)
      else if e = CHR ''/'' then Some (CHR ''/'')
      else None)"

definition cons_result :: "'a \<Rightarrow> ('a list \<times> string) option \<Rightarrow> ('a list \<times> string) option" where
  "cons_result x r = (case r of Some (xs, rest) \<Rightarrow> Some (x # xs, rest) | None \<Rightarrow> None)"

fun parse_string_body :: "string \<Rightarrow> (string \<times> string) option" where
  "parse_string_body [] = None"
| "parse_string_body (c # cs) =
     (if c = CHR 0x22 then Some ([], cs)
      else if c = CHR 0x5C then
        (case cs of
           [] \<Rightarrow> None
         | e # cs1 \<Rightarrow>
             if e = CHR ''u'' then
               (case cs1 of
                  h1 # h2 # h3 # h4 # cs2 \<Rightarrow>
                    (case (hex_val h1, hex_val h2, hex_val h3, hex_val h4) of
                       (Some a, Some b, Some c', Some d) \<Rightarrow>
                         if a = 0 \<and> b = 0
                         then cons_result (char_of (16 * c' + d)) (parse_string_body cs2)
                         else None
                     | _ \<Rightarrow> None)
                | _ \<Rightarrow> None)
             else
               (case unescape e of
                  Some ch \<Rightarrow> cons_result ch (parse_string_body cs1)
                | None \<Rightarrow> None))
      else if (of_char c :: nat) < 32 then None
      else cons_result c (parse_string_body cs))"

fun parse_value :: "nat \<Rightarrow> string \<Rightarrow> (json \<times> string) option"
  and parse_elements :: "nat \<Rightarrow> string \<Rightarrow> (json list \<times> string) option"
  and parse_members :: "nat \<Rightarrow> string \<Rightarrow> ((string \<times> json) list \<times> string) option"
where
  "parse_value 0 s = None"
| "parse_value (Suc n) s =
     (case skip_ws s of
        [] \<Rightarrow> None
      | c # cs \<Rightarrow>
          if c = CHR ''n'' then
            (if take 3 cs = ''ull'' then Some (JNull, drop 3 cs) else None)
          else if c = CHR 0x22 then
            (case parse_string_body cs of
               Some (str, r) \<Rightarrow> Some (JString str, r)
             | None \<Rightarrow> None)
          else if c = CHR ''['' then
            (case skip_ws cs of
               [] \<Rightarrow> None
             | c1 # cs1 \<Rightarrow>
                 if c1 = CHR '']'' then Some (JArray [], cs1)
                 else (case parse_elements n cs of
                         Some (vs, r) \<Rightarrow> Some (JArray vs, r)
                       | None \<Rightarrow> None))
          else if c = CHR ''{'' then
            (case skip_ws cs of
               [] \<Rightarrow> None
             | c1 # cs1 \<Rightarrow>
                 if c1 = CHR ''}'' then Some (JObject [], cs1)
                 else (case parse_members n cs of
                         Some (kvs, r) \<Rightarrow> Some (JObject kvs, r)
                       | None \<Rightarrow> None))
          else None)"
| "parse_elements 0 s = None"
| "parse_elements (Suc n) s =
     (case parse_value n s of
        None \<Rightarrow> None
      | Some (v, r) \<Rightarrow>
          (case skip_ws r of
             [] \<Rightarrow> None
           | c # cs \<Rightarrow>
               if c = CHR '','' then cons_result v (parse_elements n cs)
               else if c = CHR '']'' then Some ([v], cs)
               else None))"
| "parse_members 0 s = None"
| "parse_members (Suc n) s =
     (case skip_ws s of
        [] \<Rightarrow> None
      | q # s1 \<Rightarrow>
          if q = CHR 0x22 then
            (case parse_string_body s1 of
               None \<Rightarrow> None
             | Some (k, r) \<Rightarrow>
                 (case skip_ws r of
                    [] \<Rightarrow> None
                  | colon # r1 \<Rightarrow>
                      if colon = CHR '':'' then
                        (case parse_value n r1 of
                           None \<Rightarrow> None
                         | Some (v, r2) \<Rightarrow>
                             (case skip_ws r2 of
                                [] \<Rightarrow> None
                              | c # cs \<Rightarrow>
                                  if c = CHR '','' then cons_result (k, v) (parse_members n cs)
                                  else if c = CHR ''}'' then Some ([(k, v)], cs)
                                  else None))
                      else None))
          else None)"

definition JSON_parse :: "string \<Rightarrow> json option" where
  "JSON_parse s =
     (case parse_value (2 * length s) s of
        Some (v, r) \<Rightarrow> if skip_ws r = [] then Some v else None
      | None \<Rightarrow> None)"

text \<open>
  Reading the exported file back into the image array and the text: the document has to
  be an object with exactly the keys \<^verbatim>\<open>images\<close> and \<^verbatim>\<open>text\<close>, in this order.
\<close>

fun json_slot :: "json \<Rightarrow> url option option" where
  "json_slot JNull = Some None"
| "json_slot (JString u) = Some (Some u)"
| "json_slot (JArray vs) = None"
| "json_slot (JObject kvs) = None"

fun read_slots :: "json list \<Rightarrow> url option list option" where
  "read_slots [] = Some []"
| "read_slots (v # vs) =
     (case json_slot v of
        None \<Rightarrow> None
      | Some x \<Rightarrow> (case read_slots vs of None \<Rightarrow> None | Some xs \<Rightarrow> Some (x # xs)))"

definition import_document :: "string \<Rightarrow> (url option list \<times> string) option" where
  "import_document doc =
     (case JSON_parse doc of
        Some (JObject [(k1, JArray vs), (k2, JString t)]) \<Rightarrow>
          if k1 = ''images'' \<and> k2 = ''text'' then
            (case read_slots vs of Some xs \<Rightarrow> Some (xs, t) | None \<Rightarrow> None)
          else None
      | _ \<Rightarrow> None)"

section \<open>Properties of Reconcile\<close>

lemma parseInt_Nil: "parseInt [] = 0"
  by (simp add: parseInt_def)

lemma in_range_iff: "(int n - 1 \<ge> 0 \<and> int n - 1 < 9) = (1 \<le> n \<and> n \<le> 9)"
  by auto

lemma nat_slot: "nat (int n - 1) = n - 1"
  by simp

lemma process_file_slot_of:
  "process_file user url_of imgs f =
     (case slot_of user f of
        Some i \<Rightarrow> js_assign imgs i (Some (url_of (name f)))
      | None \<Rightarrow> imgs)"
proof (cases user)
  case None
  then show ?thesis
    by (cases "match_slot_anchored (name f)")
       (simp_all add: process_file_def slot_of_def Let_def parseInt_Nil in_range_iff nat_slot
          del: of_nat_diff)
next
  case (Some uid)
  then show ?thesis
    by (cases "match_slot (name f)")
       (simp_all add: process_file_def slot_of_def Let_def parseInt_Nil in_range_iff nat_slot)
qed

lemma slot_of_less: "slot_of user f = Some i \<Longrightarrow> i < 9"
  by (auto simp: slot_of_def split: option.splits if_splits)

lemma length_js_assign: "i < length xs \<Longrightarrow> length (js_assign xs i v) = length xs"
  by (simp add: js_assign_def)

lemma nth_js_assign:
  "i < length xs \<Longrightarrow> j < length xs \<Longrightarrow> js_assign xs i v ! j = (if j = i then v else xs ! j)"
  by (simp add: js_assign_def)

lemma length_process_file:
  "length imgs = 9 \<Longrightarrow> length (process_file user url_of imgs f) = 9"
  by (auto simp: process_file_slot_of length_js_assign split: option.splits dest: slot_of_less)

lemma length_loop:
  "length imgs = 9 \<Longrightarrow> length (foldl (process_file user url_of) imgs fs) = 9"
  by (induction fs arbitrary: imgs) (simp_all add: length_process_file)

lemma nth_loop:
  "length imgs = 9 \<Longrightarrow> i < 9 \<Longrightarrow>
   foldl (process_file user url_of) imgs fs ! i =
     (case find (\<lambda>f. slot_of user f = Some i) (rev fs) of
        Some f \<Rightarrow> Some (url_of (name f))
      | None \<Rightarrow> imgs ! i)"
proof (induction fs rule: rev_induct)
  case Nil
  then show ?case by simp
next
  case (snoc f fs)
  define acc where "acc = foldl (process_file user url_of) imgs fs"
  have len: "length acc = 9"
    unfolding acc_def using snoc.prems(1) by (rule length_loop)
  have ih: "acc ! i =
     (case find (\<lambda>f. slot_of user f = Some i) (rev fs) of
        Some f \<Rightarrow> Some (url_of (name f))
      | None \<Rightarrow> imgs ! i)"
    unfolding acc_def using snoc by simp
  have step: "foldl (process_file user url_of) imgs (fs @ [f]) = process_file user url_of acc f"
    by (simp add: acc_def)
  show ?case
  proof (cases "slot_of user f")
    case None
    then have "process_file user url_of acc f = acc"
      by (simp add: process_file_slot_of)
    with None ih step show ?thesis by simp
  next
    case (Some k)
    then have k: "k < 9" by (rule slot_of_less)
    from Some have "process_file user url_of acc f = js_assign acc k (Some (url_of (name f)))"
      by (simp add: process_file_slot_of)
    with Some k len ih step snoc.prems(2) show ?thesis
      by (simp add: nth_js_assign)
  qed
qed

lemma length_reconcile: "length (reconcile user url_of fs) = 9"
  by (simp add: reconcile_def length_loop)

lemma nth_reconcile:
  "i < 9 \<Longrightarrow>
   reconcile user url_of fs ! i =
     map_option (\<lambda>f. url_of (name f)) (find (\<lambda>f. slot_of user f = Some i) (rev fs))"
  by (simp add: reconcile_def nth_loop split: option.splits)

lemma slot_of_user_iff:
  "slot_of (Some uid) f = Some i \<longleftrightarrow> i < 9 \<and> matches_slot uid f i"
  by (auto simp: slot_of_def matches_slot_def split: option.splits)

lemma images_load_listing:
  "fs \<noteq> [] \<Longrightarrow>
   images (fst (loadImagesFromSupabase (Some uid) False (ListData (Some fs)) url_of s)) =
     reconcile (Some uid) url_of fs"
  by (simp add: loadImagesFromSupabase_def)

lemma length_loadImages:
  "length (images s) = 9 \<Longrightarrow>
   length (images (fst (loadImagesFromSupabase user isAuthLoading listing url_of s))) = 9"
  by (auto simp: loadImagesFromSupabase_def length_reconcile split: list_result.splits
        option.splits)

lemma find_app:
  "find P (xs @ ys) = (case find P xs of None \<Rightarrow> find P ys | Some x \<Rightarrow> Some x)"
  by (induction xs) simp_all

lemma find_SomeD: "find P xs = Some x \<Longrightarrow> x \<in> set xs \<and> P x"
  by (induction xs) (auto split: if_splits)

lemma find_last_wins:
  "P y \<Longrightarrow> \<forall>z\<in>set zs. \<not> P z \<Longrightarrow> find P (rev (xs @ y # zs)) = Some y"
proof -
  assume y: "P y" and zs: "\<forall>z\<in>set zs. \<not> P z"
  from zs have "find P (rev zs) = None"
    by (simp add: find_None_iff)
  with y show ?thesis
    by (simp add: find_app)
qed

text \<open>
  Claim C1, as the page has it. For a signed-in user and any listing, the image array
  after \<^verbatim>\<open>loadImagesFromSupabase\<close> has exactly nine entries (on the empty listing because
  it had nine before: the array is then left as it is, see the end of the next section).
  For a non-empty listing, an entry that is not \<^verbatim>\<open>null\<close> is the public URL of an entry
  of the listing that starts with \<^verbatim>\<open>user-{userId}\<close> and whose number parsed from
  \<^verbatim>\<open>slot-(\d+)-\<close>, minus one, is the index, and an index no entry of the listing matches
  is \<^verbatim>\<open>null\<close>. An entry of the listing that matches none of the nine indices leaves the
  array as it is.
\<close>

theorem reconcile_result:
  "(let r = images (fst (loadImagesFromSupabase (Some uid) False (ListData (Some fs)) url_of s))
    in (length (images s) = 9 \<or> fs \<noteq> [] \<longrightarrow> length r = 9) \<and>
       (fs \<noteq> [] \<longrightarrow>
          (\<forall>i<9. \<forall>u. r ! i = Some u \<longrightarrow>
             (\<exists>f\<in>set fs. u = url_of (name f) \<and> matches_slot uid f i)) \<and>
          (\<forall>i<9. (\<forall>f\<in>set fs. \<not> matches_slot uid f i) \<longrightarrow> r ! i = None)) \<and>
       (\<forall>f imgs. (\<forall>i<9. \<not> matches_slot uid f i) \<longrightarrow>
          process_file (Some uid) url_of imgs f = imgs))"
proof -
  let ?r = "images (fst (loadImagesFromSupabase (Some uid) False (ListData (Some fs)) url_of s))"
  have r: "?r = reconcile (Some uid) url_of fs" if "fs \<noteq> []"
    using that by (rule images_load_listing)
  have len: "length ?r = 9" if "length (images s) = 9 \<or> fs \<noteq> []"
    using that
  proof
    assume "length (images s) = 9"
    then show ?thesis by (rule length_loadImages)
  next
    assume "fs \<noteq> []"
    then show ?thesis by (simp add: r length_reconcile)
  qed
  have some: "\<exists>f\<in>set fs. u = url_of (name f) \<and> matches_slot uid f i"
    if "fs \<noteq> []" and "i < 9" and "?r ! i = Some u" for i u
  proof -
    from that obtain f where f: "find (\<lambda>f. slot_of (Some uid) f = Some i) (rev fs) = Some f"
      and u: "u = url_of (name f)"
      by (auto simp: r nth_reconcile)
    from find_SomeD [OF f] have "f \<in> set fs" and "slot_of (Some uid) f = Some i"
      by simp_all
    with u show ?thesis
      by (auto simp: slot_of_user_iff)
  qed
  have none: "?r ! i = None"
    if "fs \<noteq> []" and "i < 9" and "\<forall>f\<in>set fs. \<not> matches_slot uid f i" for i
  proof -
    from that have "find (\<lambda>f. slot_of (Some uid) f = Some i) (rev fs) = None"
      by (simp add: find_None_iff slot_of_user_iff)
    with that(1,2) show ?thesis
      by (simp add: r nth_reconcile)
  qed
  have skip: "process_file (Some uid) url_of imgs f = imgs"
    if "\<forall>i<9. \<not> matches_slot uid f i" for f imgs
  proof -
    from that have "slot_of (Some uid) f = None"
      by (cases "slot_of (Some uid) f") (auto simp: slot_of_user_iff)
    then show ?thesis
      by (simp add: process_file_slot_of)
  qed
  from len some none skip show ?thesis
    unfolding Let_def by blast
qed

text \<open>
  The theorem at work on the listing \<^verbatim>\<open>[{name: "user-42-slot-3-1000"}]\<close> of user
  \<^verbatim>\<open>42\<close>: nine entries, and slot 4, which nothing matches, is \<^verbatim>\<open>null\<close>.
\<close>

theorem reconcile_result_witness:
  "[\<lparr>name = ''user-42-slot-3-1000''\<rparr>] \<noteq> [] \<and>
   length (images (fst (loadImagesFromSupabase (Some ''42'') False
       (ListData (Some [\<lparr>name = ''user-42-slot-3-1000''\<rparr>])) example_url initial_state))) = 9 \<and>
   images (fst (loadImagesFromSupabase (Some ''42'') False
       (ListData (Some [\<lparr>name = ''user-42-slot-3-1000''\<rparr>])) example_url initial_state)) ! 4
     = None"
proof -
  let ?f = "\<lparr>name = ''user-42-slot-3-1000''\<rparr>"
  let ?r = "images (fst (loadImagesFromSupabase (Some ''42'') False
       (ListData (Some [?f])) example_url initial_state))"
  have ne: "[?f] \<noteq> []" by simp
  then have either: "length (images initial_state) = 9 \<or> [?f] \<noteq> []" ..
  have m: "\<not> matches_slot ''42'' ?f 4"
    by code_simp
  note R = reconcile_result [of "''42''" "[?f]" example_url initial_state, unfolded Let_def]
  have len: "length ?r = 9"
    by (rule R [THEN conjunct1, rule_format, OF either])
  have four: "(4::nat) < 9" by simp
  have all: "\<not> matches_slot ''42'' f 4" if "f \<in> set [?f]" for f
    using that m by simp
  have none: "?r ! 4 = None"
    by (rule R [THEN conjunct2, THEN conjunct1, rule_format, OF ne, THEN conjunct2, rule_format,
          OF four all])
  from ne len none show ?thesis
    by blast
qed

text \<open>
  Claim C8. When two entries \<open>f1\<close> and \<open>f2\<close> of the listing map to the same slot, \<open>f2\<close>
  after \<open>f1\<close> in the order the bucket returned, and no entry after \<open>f2\<close> maps to that slot,
  the slot ends up with the public URL of \<open>f2\<close>: the listing is processed in its own
  order and the later write wins.
\<close>

theorem reconcile_last_wins:
  "slot_of (Some uid) f1 = Some i \<Longrightarrow> slot_of (Some uid) f2 = Some i \<Longrightarrow>
   \<forall>f\<in>set zs. slot_of (Some uid) f \<noteq> Some i \<Longrightarrow>
   images (fst (loadImagesFromSupabase (Some uid) False
      (ListData (Some (xs @ f1 # ys @ f2 # zs))) url_of s)) ! i = Some (url_of (name f2))"
proof -
  assume f1: "slot_of (Some uid) f1 = Some i" and f2: "slot_of (Some uid) f2 = Some i"
    and zs: "\<forall>f\<in>set zs. slot_of (Some uid) f \<noteq> Some i"
  let ?fs = "xs @ f1 # ys @ f2 # zs"
  from f2 have i: "i < 9" by (rule slot_of_less)
  have "find (\<lambda>f. slot_of (Some uid) f = Some i) (rev ((xs @ f1 # ys) @ f2 # zs)) = Some f2"
    using f2 zs by (intro find_last_wins) auto
  then have "find (\<lambda>f. slot_of (Some uid) f = Some i) (rev ?fs) = Some f2"
    by simp
  moreover have "?fs \<noteq> []" by simp
  ultimately show ?thesis
    using i by (simp add: images_load_listing nth_reconcile del: rev_append)
qed

text \<open>Two uploads of user \<^verbatim>\<open>42\<close> into slot 3: the later entry of the listing wins.\<close>

theorem reconcile_last_wins_witness:
  "slot_of (Some ''42'') \<lparr>name = ''user-42-slot-3-1000''\<rparr> = Some 2 \<and>
   slot_of (Some ''42'') \<lparr>name = ''user-42-slot-3-2000''\<rparr> = Some 2 \<and>
   images (fst (loadImagesFromSupabase (Some ''42'') False
      (ListData (Some [\<lparr>name = ''user-42-slot-3-1000''\<rparr>, \<lparr>name = ''user-42-slot-3-2000''\<rparr>]))
      example_url initial_state)) ! 2 = Some ''https://cdn.example/user-42-slot-3-2000''"
proof -
  let ?f1 = "\<lparr>name = ''user-42-slot-3-1000''\<rparr>"
  let ?f2 = "\<lparr>name = ''user-42-slot-3-2000''\<rparr>"
  have f1: "slot_of (Some ''42'') ?f1 = Some 2"
    by code_simp
  have f2: "slot_of (Some ''42'') ?f2 = Some 2"
    by code_simp
  have zs: "\<forall>f\<in>set []. slot_of (Some ''42'') f \<noteq> Some 2"
    by simp
  have u: "example_url (name ?f2) = ''https://cdn.example/user-42-slot-3-2000''"
    by (simp add: example_url_def)
  from reconcile_last_wins [OF f1 f2 zs, of "[]" "[]" example_url initial_state]
  have "images (fst (loadImagesFromSupabase (Some ''42'') False
      (ListData (Some [?f1, ?f2])) example_url initial_state)) ! 2
      = Some ''https://cdn.example/user-42-slot-3-2000''"
    by (simp only: u append_Nil)
  with f1 f2 show ?thesis
    by (simp only: simp_thms)
qed

text \<open>
  Claim C2. Signed out (and the session check finished), \<^verbatim>\<open>loadImagesFromSupabase\<close>
  returns at its first test: it resets the grid to nine \<^verbatim>\<open>null\<close>s and never asks for
  the listing, whatever the bucket holds. On the listing \<^verbatim>\<open>[{name: "slot-5-1000"}]\<close> the
  entry \<^verbatim>\<open>images[4]\<close> is \<^verbatim>\<open>null\<close>, although the body of the loop, run without a user,
  would have written the public URL there.
\<close>

theorem signed_out_listing_ignored:
  "loadImagesFromSupabase None False listing url_of s =
     (s\<lparr>images := replicate 9 None, isLoading := False\<rparr>, []) \<and>
   images (fst (loadImagesFromSupabase None False
      (ListData (Some [\<lparr>name = ''slot-5-1000''\<rparr>])) url_of s)) ! 4 = None \<and>
   process_file None url_of (replicate 9 None) \<lparr>name = ''slot-5-1000''\<rparr> ! 4
     = Some (url_of ''slot-5-1000'')"
proof -
  have a: "loadImagesFromSupabase None False listing url_of s =
     (s\<lparr>images := replicate 9 None, isLoading := False\<rparr>, [])" for listing
    by (simp add: loadImagesFromSupabase_def)
  have "slot_of None \<lparr>name = ''slot-5-1000''\<rparr> = Some 4"
    by code_simp
  then have b: "process_file None url_of (replicate 9 None) \<lparr>name = ''slot-5-1000''\<rparr> ! 4
     = Some (url_of ''slot-5-1000'')"
    by (simp add: process_file_slot_of js_assign_def)
  have c: "replicate 9 None ! 4 = (None :: url option)"
    by simp
  from a b c show ?thesis
    by simp
qed

section \<open>Properties of adding and removing an image\<close>

lemmas event_kinds = is_network_call_def is_upload_notification_def is_toast_def
  is_images_change_def

text \<open>
  Claim C3. A picked file whose type does not start with \<^verbatim>\<open>image/\<close>, or whose size is
  above 5 MiB, is rejected by \<^verbatim>\<open>handleFileChange\<close>: the state of the page is unchanged,
  no call to the bucket is made, no upload notification is emitted, the grid is not
  told of new images, and all that happens is a destructive toast and an error on the
  debug bus with the same message.
\<close>

theorem invalid_file_rejected:
  "\<not> startsWith (file_type f) ''image/'' \<or> file_size f > 5 * 1024 * 1024 \<Longrightarrow>
   (let r = handleFileChange b userId now index (Some f) s
    in fst r = s \<and>
       filter is_network_call (snd r) = [] \<and>
       filter is_upload_notification (snd r) = [] \<and>
       filter is_images_change (snd r) = [] \<and>
       (\<exists>title msg. snd r = [Toast title msg True, Debug Error msg]))"
  by (auto simp: handleFileChange_def Let_def event_kinds)

text \<open>The scenario of the specification: a 6 MiB image.\<close>

theorem invalid_file_rejected_witness:
  "(6291456::nat) > 5 * 1024 * 1024 \<and>
   handleFileChange (example_bucket (UploadData ''p'') RemoveOk) (Some ''42'') 1000 0
     (Some \<lparr>file_name = ''big.png'', file_type = ''image/png'', file_size = 6291456\<rparr>)
     initial_state
   = (initial_state,
      [Toast ''File too large'' ''File too large (6.00MB) - limit is 5MB'' True,
       Debug Error ''File too large (6.00MB) - limit is 5MB''])"
proof -
  let ?f = "\<lparr>file_name = ''big.png'', file_type = ''image/png'', file_size = 6291456\<rparr>"
  let ?r = "handleFileChange (example_bucket (UploadData ''p'') RemoveOk) (Some ''42'') 1000 0
     (Some ?f) initial_state"
  have big: "file_size ?f > 5 * 1024 * 1024" by simp
  then have "\<not> startsWith (file_type ?f) ''image/'' \<or> file_size ?f > 5 * 1024 * 1024" ..
  note R = invalid_file_rejected [OF this, of "example_bucket (UploadData ''p'') RemoveOk"
      "Some ''42''" 1000 0 initial_state, unfolded Let_def]
  from R have st: "fst ?r = initial_state"
    by (rule conjunct1)
  have ev: "snd ?r = [Toast ''File too large'' ''File too large (6.00MB) - limit is 5MB'' True,
       Debug Error ''File too large (6.00MB) - limit is 5MB'']"
    by (simp add: handleFileChange_def startsWith_def toFixed2_MB_def digit_char_def Let_def show_nat.simps)
  have "?r = (fst ?r, snd ?r)" by simp
  with st ev have "?r = (initial_state,
      [Toast ''File too large'' ''File too large (6.00MB) - limit is 5MB'' True,
       Debug Error ''File too large (6.00MB) - limit is 5MB''])"
    by (simp only:)
  then show ?thesis by simp
qed

lemma upload_end_notifications:
  "filter is_upload_notification (snd (upload_end url_of index newImages res s))
     = [OnFinishUpload index]"
  by (cases res) (simp_all add: upload_end_def Let_def event_kinds)

lemma upload_end_not_busy:
  "index \<notin> set (uploadingSlots (fst (upload_end url_of index newImages res s)))"
  by (cases res)
     (simp_all add: upload_end_def Let_def handleFinishImageUpload_def handleImagesChange_def)

lemma upload_begin_notifications:
  "filter is_upload_notification (snd (upload_begin userId now index s)) = [OnStartUpload index]"
  by (simp add: upload_begin_def Let_def event_kinds)

lemma handleImageChange_upload:
  "handleImageChange b userId now index (Some f) s =
     (fst (upload_end (getPublicUrl b) index (images s) (upload_answer b)
             (fst (upload_begin userId now index s))),
      snd (upload_begin userId now index s) @
      snd (upload_end (getPublicUrl b) index (images s) (upload_answer b)
             (fst (upload_begin userId now index s))))"
  by (simp add: handleImageChange_def Let_def split: prod.splits)

lemma handleFileChange_valid:
  "startsWith (file_type f) ''image/'' \<Longrightarrow> file_size f \<le> 5 * 1024 * 1024 \<Longrightarrow>
   handleFileChange b userId now index (Some f) s =
     (fst (handleImageChange b userId now index (Some f) s),
      Debug Info (''File selected for upload in slot '' @ show_nat (index + 1))
        # snd (handleImageChange b userId now index (Some f) s))"
  by (simp add: handleFileChange_def split: prod.splits)

text \<open>
  Claim C4. For a picked file that passes the checks, whatever the bucket answers to
  the upload, the upload notifications emitted are exactly one \<^verbatim>\<open>onStartUpload(index)\<close>
  followed by exactly one \<^verbatim>\<open>onFinishUpload(index)\<close>, and afterwards the slot is not
  among the uploading slots.
\<close>

theorem upload_notifications_paired:
  "startsWith (file_type f) ''image/'' \<Longrightarrow> file_size f \<le> 5 * 1024 * 1024 \<Longrightarrow>
   (let r = handleFileChange b userId now index (Some f) s
    in filter is_upload_notification (snd r) = [OnStartUpload index, OnFinishUpload index] \<and>
       index \<notin> set (uploadingSlots (fst r)))"
proof -
  assume v: "startsWith (file_type f) ''image/''" "file_size f \<le> 5 * 1024 * 1024"
  have "\<not> is_upload_notification
          (Debug Info (''File selected for upload in slot '' @ show_nat (index + 1)))"
    by (simp add: is_upload_notification_def)
  then show ?thesis
    unfolding Let_def handleFileChange_valid [OF v] handleImageChange_upload
    by (simp add: upload_begin_notifications upload_end_notifications upload_end_not_busy)
qed

text \<open>An upload the bucket refuses: the pair is emitted and no slot is left busy.\<close>

theorem upload_notifications_paired_witness:
  "startsWith (file_type example_file) ''image/'' \<and>
   file_size example_file \<le> 5 * 1024 * 1024 \<and>
   filter is_upload_notification
     (snd (handleFileChange (example_bucket (UploadError ''denied'') RemoveOk) (Some ''42'')
        1000 2 (Some example_file) initial_state))
     = [OnStartUpload 2, OnFinishUpload 2] \<and>
   uploadingSlots
     (fst (handleFileChange (example_bucket (UploadError ''denied'') RemoveOk) (Some ''42'')
        1000 2 (Some example_file) initial_state)) = []"
proof -
  have t: "startsWith (file_type example_file) ''image/''"
    by (simp add: example_file_def startsWith_def)
  have z: "file_size example_file \<le> 5 * 1024 * 1024"
    by (simp add: example_file_def)
  note R = upload_notifications_paired [OF t z,
      of "example_bucket (UploadError ''denied'') RemoveOk" "Some ''42''" 1000 2 initial_state,
      unfolded Let_def]
  have u: "uploadingSlots
     (fst (handleFileChange (example_bucket (UploadError ''denied'') RemoveOk) (Some ''42'')
        1000 2 (Some example_file) initial_state)) = []"
    by (simp add: handleFileChange_valid [OF t z] handleImageChange_upload upload_end_def
          upload_begin_def example_bucket_def handleFinishImageUpload_def
          handleStartImageUpload_def initial_state_def)
  from t z R [THEN conjunct1] u show ?thesis
    by (simp only: simp_thms)
qed

lemma nth_js_assign_same: "js_assign xs i v ! i = v"
  by (simp add: js_assign_def nth_append)

lemma js_assign_in_range: "i < length xs \<Longrightarrow> js_assign xs i v = xs[i := v]"
  by (simp add: js_assign_def)

lemma split_slash_not_Nil: "split_slash s \<noteq> []"
  by (induction s) (auto split: list.splits)

lemma split_slash_no_slash: "CHR ''/'' \<notin> set seg \<Longrightarrow> split_slash seg = [seg]"
  by (induction seg) auto

lemma split_slash_append:
  "CHR ''/'' \<notin> set seg \<Longrightarrow> \<exists>q qs. split_slash (p @ CHR ''/'' # seg) = q # qs @ [seg]"
proof (induction p)
  case Nil
  then show ?case by (simp add: split_slash_no_slash)
next
  case (Cons c p)
  then obtain q qs where "split_slash (p @ CHR ''/'' # seg) = q # qs @ [seg]"
    by blast
  then show ?case
    by (cases "c = CHR ''/''") simp_all
qed

lemma last_split_slash_append:
  "CHR ''/'' \<notin> set seg \<Longrightarrow> last (split_slash (p @ CHR ''/'' # seg)) = seg"
proof -
  assume "CHR ''/'' \<notin> set seg"
  then obtain q qs where "split_slash (p @ CHR ''/'' # seg) = q # qs @ [seg]"
    using split_slash_append by blast
  then show ?thesis by simp
qed

lemma handleImageChange_remove:
  "handleImageChange b userId now index None s =
     (fst (remove_end index (images s)
        (if remove_call (images s) index \<noteq> None then Some (remove_answer b) else None) s),
      remove_begin index s @
      snd (remove_end index (images s)
        (if remove_call (images s) index \<noteq> None then Some (remove_answer b) else None) s))"
  by (simp add: handleImageChange_def Let_def split: prod.splits)

lemma remove_end_images:
  "images (fst (remove_end index newImages res s)) = js_assign newImages index None"
  by (simp add: remove_end_def Let_def handleImagesChange_def)

lemma remove_end_events:
  "filter is_toast (snd (remove_end index newImages res s)) = [] \<and>
   filter is_network_call (snd (remove_end index newImages res s)) = []"
proof (cases res)
  case None
  then show ?thesis by (simp add: remove_end_def Let_def event_kinds)
next
  case (Some a)
  then show ?thesis by (cases a) (simp_all add: remove_end_def Let_def event_kinds)
qed

lemma remove_call_Some:
  "js_index imgs index = Some u \<Longrightarrow> u \<noteq> [] \<Longrightarrow>
   remove_call imgs index = Some (last (split_slash u))"
  by (simp add: remove_call_def remove_name_def)

text \<open>
  Claim C5. Whatever the bucket answers to the removal (success, an error value, or a
  thrown exception), \<^verbatim>\<open>handleImageChange(index, null)\<close> sets the slot to \<^verbatim>\<open>null\<close> and
  leaves the other slots as they were; no toast is shown; when the slot held a URL, the
  one call to the bucket removes the object named by the last piece of that URL (for a
  URL \<^verbatim>\<open>p/seg\<close> with no slash in \<^verbatim>\<open>seg\<close>, that is \<^verbatim>\<open>seg\<close>), and a failure of the call is
  logged as an error on the debug bus.
\<close>

theorem remove_clears_slot:
  "(let r = handleRemoveImage b userId now index s
    in images (fst r) = js_assign (images s) index None \<and>
       images (fst r) ! index = None \<and>
       (index < length (images s) \<longrightarrow> images (fst r) = (images s)[index := None]) \<and>
       filter is_toast (snd r) = [] \<and>
       (\<forall>u. js_index (images s) index = Some u \<and> u \<noteq> [] \<longrightarrow>
          filter is_network_call (snd r) = [StorageRemove [last (split_slash u)]] \<and>
          (\<forall>msg. remove_answer b = RemoveError msg \<or> remove_answer b = RemoveThrows msg \<longrightarrow>
             (\<exists>m. Debug Error m \<in> set (snd r)))) \<and>
       (\<forall>p seg. CHR ''/'' \<notin> set seg \<longrightarrow> last (split_slash (p @ CHR ''/'' # seg)) = seg))"
proof -
  let ?r = "handleRemoveImage b userId now index s"
  have img: "images (fst ?r) = js_assign (images s) index None"
    by (simp add: handleRemoveImage_def handleImageChange_remove remove_end_images)
  have null: "images (fst ?r) ! index = None"
    by (simp add: img nth_js_assign_same)
  have upd: "images (fst ?r) = (images s)[index := None]" if "index < length (images s)"
    using that by (simp add: img js_assign_in_range)
  have toast: "filter is_toast (snd ?r) = []"
    by (simp add: handleRemoveImage_def handleImageChange_remove remove_end_events
          remove_begin_def event_kinds split: option.splits)
  have call: "filter is_network_call (snd ?r) = [StorageRemove [last (split_slash u)]]"
    if "js_index (images s) index = Some u" "u \<noteq> []" for u
    using remove_call_Some [OF that]
    by (simp add: handleRemoveImage_def handleImageChange_remove remove_end_events
          remove_begin_def event_kinds)
  have logged: "\<exists>m. Debug Error m \<in> set (snd ?r)"
    if "js_index (images s) index = Some u" "u \<noteq> []"
      "remove_answer b = RemoveError msg \<or> remove_answer b = RemoveThrows msg" for u msg
    using remove_call_Some [OF that(1,2)] that(3)
    by (auto simp: handleRemoveImage_def handleImageChange_remove remove_end_def Let_def)
  from img null upd toast call logged last_split_slash_append show ?thesis
    unfolding Let_def by blast
qed

text \<open>A removal the bucket refuses: the grid is empty afterwards all the same.\<close>

theorem remove_clears_slot_witness:
  "images (fst (handleRemoveImage (example_bucket (UploadData ''p'') (RemoveError ''denied''))
       (Some ''42'') 2000 0 example_state)) = replicate 9 None \<and>
   filter is_network_call
     (snd (handleRemoveImage (example_bucket (UploadData ''p'') (RemoveError ''denied''))
       (Some ''42'') 2000 0 example_state)) = [StorageRemove [''user-42-slot-1-1000'']]"
proof -
  let ?b = "example_bucket (UploadData ''p'') (RemoveError ''denied'')"
  let ?u = "''https://cdn.example/user-42-slot-1-1000''"
  note R = remove_clears_slot [of ?b "Some ''42''" 2000 0 example_state, unfolded Let_def]
  have len: "0 < length (images example_state)"
    by (simp add: example_state_def)
  have cur: "js_index (images example_state) 0 = Some ?u \<and> ?u \<noteq> []"
    by (simp add: example_state_def js_index_def)
  have seg: "last (split_slash ?u) = ''user-42-slot-1-1000''"
    by code_simp
  have upd: "(images example_state)[0 := None] = replicate 9 None"
    by (simp add: example_state_def eval_nat_numeral)
  from R [THEN conjunct2, THEN conjunct2, THEN conjunct1, rule_format, OF len]
  have a: "images (fst (handleRemoveImage ?b (Some ''42'') 2000 0 example_state))
     = replicate 9 None"
    by (simp only: upd)
  from R [THEN conjunct2, THEN conjunct2, THEN conjunct2, THEN conjunct2, THEN conjunct1,
      rule_format, OF cur, THEN conjunct1]
  have b: "filter is_network_call (snd (handleRemoveImage ?b (Some ''42'') 2000 0 example_state))
     = [StorageRemove [''user-42-slot-1-1000'']]"
    by (simp only: seg)
  from a b show ?thesis ..
qed

lemma upload_end_failure:
  "res = UploadError msg \<or> res = UploadThrows msg \<Longrightarrow>
   images (fst (upload_end url_of index newImages res s)) = images s \<and>
   text_value (fst (upload_end url_of index newImages res s)) = text_value s \<and>
   Toast ''Upload failed''
     (message_or msg ''There was an error uploading your image. Please try again.'') True
     \<in> set (snd (upload_end url_of index newImages res s)) \<and>
   filter is_images_change (snd (upload_end url_of index newImages res s)) = [] \<and>
   filter is_network_call (snd (upload_end url_of index newImages res s)) = []"
  by (auto simp: upload_end_def handleFinishImageUpload_def event_kinds)

lemma upload_begin_frame:
  "images (fst (upload_begin userId now index s)) = images s \<and>
   text_value (fst (upload_begin userId now index s)) = text_value s \<and>
   filter is_images_change (snd (upload_begin userId now index s)) = [] \<and>
   filter is_network_call (snd (upload_begin userId now index s))
     = [StorageUpload (upload_name userId index now)]"
  by (simp add: upload_begin_def Let_def handleStartImageUpload_def event_kinds)

text \<open>
  Claim C6. When the upload fails (an error value or a thrown exception), the image
  array and the text are what they were, the grid is not told of new images, the toast
  \<^verbatim>\<open>Upload failed\<close> is shown, the slot is not among the uploading slots afterwards, and
  the upload was the only call to the bucket (it is not tried again).
\<close>

theorem upload_failure_keeps_slot:
  "upload_answer b = UploadError msg \<or> upload_answer b = UploadThrows msg \<Longrightarrow>
   (let r = handleImageChange b userId now index (Some f) s
    in images (fst r) = images s \<and>
       text_value (fst r) = text_value s \<and>
       filter is_images_change (snd r) = [] \<and>
       Toast ''Upload failed''
         (message_or msg ''There was an error uploading your image. Please try again.'') True
         \<in> set (snd r) \<and>
       index \<notin> set (uploadingSlots (fst r)) \<and>
       filter is_network_call (snd r) = [StorageUpload (upload_name userId index now)])"
proof -
  assume "upload_answer b = UploadError msg \<or> upload_answer b = UploadThrows msg"
  note E = upload_end_failure [OF this, of "getPublicUrl b" index "images s"
      "fst (upload_begin userId now index s)"]
  from E show ?thesis
    unfolding Let_def handleImageChange_upload
    by (simp add: upload_begin_frame upload_end_not_busy)
qed

text \<open>A refused upload into slot 3 of a grid that holds an image in slot 0.\<close>

theorem upload_failure_keeps_slot_witness:
  "images (fst (handleImageChange (example_bucket (UploadError ''denied'') RemoveOk)
       (Some ''42'') 1000 3 (Some example_file) example_state)) = images example_state \<and>
   Toast ''Upload failed'' ''denied'' True
     \<in> set (snd (handleImageChange (example_bucket (UploadError ''denied'') RemoveOk)
       (Some ''42'') 1000 3 (Some example_file) example_state)) \<and>
   uploadingSlots (fst (handleImageChange (example_bucket (UploadError ''denied'') RemoveOk)
       (Some ''42'') 1000 3 (Some example_file) example_state)) = []"
proof -
  let ?b = "example_bucket (UploadError ''denied'') RemoveOk"
  have ans: "upload_answer ?b = UploadError ''denied'' \<or> upload_answer ?b = UploadThrows ''denied''"
    by (simp add: example_bucket_def)
  note R = upload_failure_keeps_slot [OF ans, of "Some ''42''" 1000 3 example_file example_state,
      unfolded Let_def]
  have m: "message_or ''denied''
      ''There was an error uploading your image. Please try again.'' = ''denied''"
    by (simp add: message_or_def)
  have u: "uploadingSlots (fst (handleImageChange ?b (Some ''42'') 1000 3 (Some example_file)
      example_state)) = []"
    by (simp add: handleImageChange_upload upload_end_def upload_begin_def example_bucket_def
          handleFinishImageUpload_def handleStartImageUpload_def example_state_def
          initial_state_def)
  from R [THEN conjunct1] R [THEN conjunct2, THEN conjunct2, THEN conjunct2, THEN conjunct1] u
  show ?thesis
    by (simp only: m simp_thms)
qed

lemma upload_end_success:
  "index < length newImages \<Longrightarrow>
   images (fst (upload_end url_of index newImages (UploadData path) s))
     = newImages[index := Some (url_of path)] \<and>
   text_value (fst (upload_end url_of index newImages (UploadData path) s)) = text_value s"
  by (simp add: upload_end_def Let_def handleFinishImageUpload_def handleImagesChange_def
        js_assign_in_range)

text \<open>
  Claim C10. After a successful upload into a slot of the grid, the image array has the
  length of the array copied at the start, holds the public URL at \<open>index\<close> and the copied
  entries everywhere else, and the text is unchanged. The same holds when other handlers
  ran while the upload was under way (\<open>s1\<close> is the state when it returns): the array
  becomes the copy with the one entry replaced, and the text stays what it is then.
\<close>

theorem upload_success_frame:
  "upload_answer b = UploadData path \<Longrightarrow> index < length (images s) \<Longrightarrow>
   (let s' = fst (handleImageChange b userId now index (Some f) s)
    in length (images s') = length (images s) \<and>
       images s' ! index = Some (getPublicUrl b path) \<and>
       (\<forall>j<length (images s). j \<noteq> index \<longrightarrow> images s' ! j = images s ! j) \<and>
       text_value s' = text_value s \<and>
       (\<forall>s1. images (fst (upload_end (getPublicUrl b) index (images s) (UploadData path) s1))
               = (images s)[index := Some (getPublicUrl b path)] \<and>
             text_value (fst (upload_end (getPublicUrl b) index (images s) (UploadData path) s1))
               = text_value s1))"
proof -
  assume ans: "upload_answer b = UploadData path" and i: "index < length (images s)"
  note E = upload_end_success [OF i, of "getPublicUrl b" path]
  have "images (fst (handleImageChange b userId now index (Some f) s))
          = (images s)[index := Some (getPublicUrl b path)]"
    and "text_value (fst (handleImageChange b userId now index (Some f) s)) = text_value s"
    by (simp_all add: handleImageChange_upload ans E upload_begin_frame)
  with i E show ?thesis
    unfolding Let_def by simp
qed

text \<open>A successful upload into slot 3: slot 0 keeps its image.\<close>

theorem upload_success_frame_witness:
  "upload_answer (example_bucket (UploadData ''user-42-slot-4-1000'') RemoveOk)
     = UploadData ''user-42-slot-4-1000'' \<and>
   3 < length (images example_state) \<and>
   images (fst (handleImageChange (example_bucket (UploadData ''user-42-slot-4-1000'') RemoveOk)
       (Some ''42'') 1000 3 (Some example_file) example_state)) ! 3
     = Some ''https://cdn.example/user-42-slot-4-1000'' \<and>
   images (fst (handleImageChange (example_bucket (UploadData ''user-42-slot-4-1000'') RemoveOk)
       (Some ''42'') 1000 3 (Some example_file) example_state)) ! 0
     = Some ''https://cdn.example/user-42-slot-1-1000''"
proof -
  let ?b = "example_bucket (UploadData ''user-42-slot-4-1000'') RemoveOk"
  have ans: "upload_answer ?b = UploadData ''user-42-slot-4-1000''"
    by (simp add: example_bucket_def)
  have i: "3 < length (images example_state)"
    by (simp add: example_state_def)
  note R = upload_success_frame [OF ans i, of "Some ''42''" 1000 example_file, unfolded Let_def]
  have u: "getPublicUrl ?b ''user-42-slot-4-1000'' = ''https://cdn.example/user-42-slot-4-1000''"
    by (simp add: example_bucket_def example_url_def)
  have z: "(0::nat) < length (images example_state)" "(0::nat) \<noteq> 3"
    by (simp_all add: example_state_def)
  have old: "images example_state ! 0 = Some ''https://cdn.example/user-42-slot-1-1000''"
    by (simp add: example_state_def)
  from R [THEN conjunct2, THEN conjunct1]
  have a: "images (fst (handleImageChange ?b (Some ''42'') 1000 3 (Some example_file)
      example_state)) ! 3 = Some ''https://cdn.example/user-42-slot-4-1000''"
    by (simp only: u)
  from R [THEN conjunct2, THEN conjunct2, THEN conjunct1, rule_format, OF z]
  have b: "images (fst (handleImageChange ?b (Some ''42'') 1000 3 (Some example_file)
      example_state)) ! 0 = Some ''https://cdn.example/user-42-slot-1-1000''"
    by (simp only: old)
  from ans i a b show ?thesis
    by (simp only: simp_thms)
qed

subsection \<open>An empty listing after an upload\<close>

text \<open>
  Claim C1 as stated speaks of every listing, and fails on the empty one: the guard
  \<^verbatim>\<open>files && files.length > 0\<close> skips \<^verbatim>\<open>setImages\<close>. After a successful upload into the
  first slot, a run of \<^verbatim>\<open>loadImagesFromSupabase\<close> that is given the empty listing leaves
  the entry in place, although no object of the listing matches it.
\<close>

lemma images_load_empty:
  "images (fst (loadImagesFromSupabase (Some uid) False (ListData (Some [])) url_of s)) = images s"
  by (simp add: loadImagesFromSupabase_def)

theorem reconcile_empty_listing_counterexample:
  "images (fst (loadImagesFromSupabase (Some ''42'') False (ListData (Some [])) example_url
     (fst (handleImageChange (example_bucket (UploadData ''user-42-slot-1-1000'') RemoveOk)
        (Some ''42'') 1000 0 (Some example_file) initial_state)))) ! 0
   = Some ''https://cdn.example/user-42-slot-1-1000''"
proof -
  have "0 < length (images initial_state)"
    by (simp add: initial_state_def)
  from upload_end_success [OF this, of example_url "''user-42-slot-1-1000''"]
  show ?thesis
    by (simp add: images_load_empty handleImageChange_upload example_bucket_def
          example_url_def initial_state_def)
qed

section \<open>The nine slots\<close>

lemma length_upload_end:
  "length (images s) = 9 \<Longrightarrow> length newImages = 9 \<Longrightarrow> index < 9 \<Longrightarrow>
   length (images (fst (upload_end url_of index newImages res s))) = 9"
  by (cases res)
     (simp_all add: upload_end_def Let_def handleFinishImageUpload_def handleImagesChange_def
        length_js_assign)

lemma length_remove_end:
  "length newImages = 9 \<Longrightarrow> index < 9 \<Longrightarrow>
   length (images (fst (remove_end index newImages res s))) = 9"
  by (simp add: remove_end_images length_js_assign)

lemma length_handleImageChange:
  "length (images s) = 9 \<Longrightarrow> index < 9 \<Longrightarrow>
   length (images (fst (handleImageChange b userId now index fileOpt s))) = 9"
proof (cases fileOpt)
  case None
  assume "length (images s) = 9" "index < 9"
  with None show ?thesis
    by (simp add: handleImageChange_remove length_remove_end)
next
  case (Some f)
  assume "length (images s) = 9" "index < 9"
  with Some show ?thesis
    by (simp add: handleImageChange_upload length_upload_end upload_begin_frame)
qed

lemma reachable_invariant:
  "reachable s ps \<Longrightarrow> length (images s) = 9 \<and> (\<forall>p\<in>set ps. pending_ok p)"
proof (induction rule: reachable.induct)
  case start
  show ?case by (simp add: initial_state_def)
next
  case (load s ps user isAuthLoading listing url_of)
  then show ?case by (simp add: length_loadImages)
next
  case (edit s ps t)
  then show ?case by simp
next
  case (upload_started s ps index userId now)
  then show ?case by (simp add: upload_begin_frame pending_ok_def)
next
  case (upload_ended s ps index newImages url_of res)
  then have "pending_ok (PendingUpload index newImages)" by blast
  then have "index < 9" "length newImages = 9" by (simp_all add: pending_ok_def)
  with upload_ended show ?case
    by (auto simp: length_upload_end dest: notin_set_remove1)
next
  case (remove_started s ps index)
  then show ?case by (simp add: pending_ok_def)
next
  case (remove_ended s ps index newImages res)
  then have "pending_ok (PendingRemove index newImages)" by blast
  then have "index < 9" "length newImages = 9" by (simp_all add: pending_ok_def)
  with remove_ended show ?case
    by (auto simp: length_remove_end dest: notin_set_remove1)
next
  case (remove_at_once s ps index)
  then show ?case by (simp add: length_remove_end)
qed

text \<open>
  Claim C9. The image array starts as nine \<^verbatim>\<open>null\<close>s; in every state the page can reach,
  with handlers waiting for the bucket and going on in any order, it has nine entries;
  and \<^verbatim>\<open>loadImagesFromSupabase\<close> and \<^verbatim>\<open>handleImageChange\<close> (adding or removing, at a
  slot of the grid) each keep an array of nine entries at nine entries.
\<close>

theorem nine_slots_always:
  "images initial_state = replicate 9 None \<and>
   (reachable s ps \<longrightarrow> length (images s) = 9) \<and>
   (length (images s) = 9 \<longrightarrow>
      length (images (fst (loadImagesFromSupabase user isAuthLoading listing url_of s))) = 9) \<and>
   (length (images s) = 9 \<and> index < 9 \<longrightarrow>
      length (images (fst (handleImageChange b userId now index fileOpt s))) = 9)"
  using reachable_invariant [of s ps]
  by (simp add: initial_state_def length_loadImages length_handleImageChange)

text \<open>A state reached by an upload that started and ended.\<close>

theorem nine_slots_always_witness:
  "reachable
     (fst (upload_end example_url 2 (images initial_state) (UploadData ''user-42-slot-3-1000'')
        (fst (upload_begin (Some ''42'') 1000 2 initial_state)))) [] \<and>
   length (images
     (fst (upload_end example_url 2 (images initial_state) (UploadData ''user-42-slot-3-1000'')
        (fst (upload_begin (Some ''42'') 1000 2 initial_state))))) = 9"
proof -
  let ?s1 = "fst (upload_begin (Some ''42'') 1000 2 initial_state)"
  let ?p = "PendingUpload 2 (images initial_state)"
  let ?s2 = "fst (upload_end example_url 2 (images initial_state)
      (UploadData ''user-42-slot-3-1000'') ?s1)"
  have "2 < length (images initial_state)"
    by (simp add: initial_state_def)
  with reachable.start have "reachable ?s1 [?p]"
    by (rule reachable.upload_started)
  moreover have "?p \<in> set [?p]" by simp
  ultimately have "reachable ?s2 (remove1 ?p [?p])"
    by (rule reachable.upload_ended)
  then have r: "reachable ?s2 []" by simp
  from nine_slots_always [of ?s2 "[]", THEN conjunct2, THEN conjunct1, rule_format, OF r] r
  show ?thesis by (simp only: simp_thms)
qed

section \<open>Properties of the export\<close>

lemma hex_digits_read_back: "list_all (\<lambda>n. hex_val (hex_digit n) = Some n) [0..<16]"
  by code_simp

lemma hex_val_hex_digit: "n < 16 \<Longrightarrow> hex_val (hex_digit n) = Some n"
  using hex_digits_read_back by (simp add: list_all_iff)

lemma parse_string_body_escape:
  "parse_string_body (escape_char c @ rest) = cons_result c (parse_string_body rest)"
proof -
  consider (special) "c \<in> {CHR 0x08, CHR 0x09, CHR 0x0A, CHR 0x0C, CHR 0x0D, CHR 0x22, CHR 0x5C}"
    | (control) "c \<notin> {CHR 0x08, CHR 0x09, CHR 0x0A, CHR 0x0C, CHR 0x0D, CHR 0x22, CHR 0x5C}"
        "(of_char c :: nat) < 32"
    | (plain) "c \<notin> {CHR 0x08, CHR 0x09, CHR 0x0A, CHR 0x0C, CHR 0x0D, CHR 0x22, CHR 0x5C}"
        "\<not> (of_char c :: nat) < 32"
    by blast
  then show ?thesis
  proof cases
    case special
    then show ?thesis
      by (auto simp: escape_char_def unescape_def)
  next
    case control
    from control(2) have d: "(of_char c :: nat) div 16 < 16" and m: "(of_char c :: nat) mod 16 < 16"
      and undo: "char_of (16 * ((of_char c :: nat) div 16) + (of_char c :: nat) mod 16) = c"
      by simp_all
    have z: "hex_val CHR ''0'' = Some 0"
      by (simp add: hex_val_def)
    from control show ?thesis
      by (simp add: escape_char_def z hex_val_hex_digit [OF d] hex_val_hex_digit [OF m] undo)
  next
    case plain
    then show ?thesis
      by (simp add: escape_char_def)
  qed
qed

lemma parse_string_body_quoted:
  "parse_string_body (concat (map escape_char s) @ CHR 0x22 # rest) = Some (s, rest)"
  by (induction s) (simp_all add: parse_string_body_escape cons_result_def)

lemma skip_ws_prefix:
  "\<forall>c\<in>set ws. is_ws c \<Longrightarrow> \<not> is_ws c \<Longrightarrow> skip_ws (ws @ c # s) = c # s"
  by (simp add: skip_ws_def dropWhile_append2)

lemma indent_of_ws: "\<forall>c\<in>set (indent_of d). is_ws c"
  by (simp add: indent_of_def is_ws_def)

lemma length_Suc_fuel: "2 * length (xs :: string) < m \<Longrightarrow> \<exists>m'. m = Suc m' \<and> 2 * length xs \<le> m'"
  by (cases m) simp_all

lemma serialize_head:
  "\<exists>c s. SerializeJSONProperty d v = c # s \<and> \<not> is_ws c \<and> c \<noteq> CHR '']'' \<and> c \<noteq> CHR ''}''"
  by (cases v) (simp_all add: QuoteJSONString_def is_ws_def)

lemma parse_elements_joined:
  assumes IH: "\<And>v n ws rest. v \<in> set vs \<Longrightarrow> \<forall>c\<in>set ws. is_ws c \<Longrightarrow>
      2 * length (ws @ S v @ rest) \<le> n \<Longrightarrow> parse_value n (ws @ S v @ rest) = Some (v, rest)"
    and ne: "vs \<noteq> []"
    and sw: "\<forall>c\<in>set sw. is_ws c" and tw: "\<forall>c\<in>set tw. is_ws c"
  shows "\<forall>c\<in>set ws. is_ws c \<Longrightarrow>
      2 * length (ws @ join_with (CHR '','' # sw) (map S vs) @ tw @ CHR '']'' # rest) < m \<Longrightarrow>
      parse_elements m (ws @ join_with (CHR '','' # sw) (map S vs) @ tw @ CHR '']'' # rest)
        = Some (vs, rest)"
  using ne IH
proof (induction vs arbitrary: m ws rule: list_nonempty_induct)
  case (single v)
  from length_Suc_fuel [OF single.prems(2)] obtain m' where m: "m = Suc m'"
    and le: "2 * length (ws @ join_with (CHR '','' # sw) (map S [v]) @ tw @ CHR '']'' # rest) \<le> m'"
    by blast
  have "parse_value m' (ws @ S v @ (tw @ CHR '']'' # rest)) = Some (v, tw @ CHR '']'' # rest)"
    using le single.prems(1) by (intro single.prems(3)) simp_all
  moreover have "skip_ws (tw @ CHR '']'' # rest) = CHR '']'' # rest"
    using tw by (intro skip_ws_prefix) (simp_all add: is_ws_def)
  ultimately show ?case
    by (simp add: m)
next
  case (cons v vs)
  from length_Suc_fuel [OF cons.prems(2)] obtain m' where m: "m = Suc m'"
    and le: "2 * length (ws @ join_with (CHR '','' # sw) (map S (v # vs)) @ tw @ CHR '']'' # rest) \<le> m'"
    by blast
  from cons.hyps obtain v' vs' where vs: "vs = v' # vs'"
    by (cases vs) auto
  let ?more = "sw @ join_with (CHR '','' # sw) (map S vs) @ tw @ CHR '']'' # rest"
  have whole: "ws @ join_with (CHR '','' # sw) (map S (v # vs)) @ tw @ CHR '']'' # rest
      = ws @ S v @ (CHR '','' # ?more)"
    by (simp add: vs)
  have "parse_value m' (ws @ S v @ (CHR '','' # ?more)) = Some (v, CHR '','' # ?more)"
    using le cons.prems(1) unfolding whole by (intro cons.prems(3)) simp_all
  moreover have "skip_ws (CHR '','' # ?more) = CHR '','' # ?more"
    using skip_ws_prefix [of "[]" "CHR '',''" ?more] by (simp add: is_ws_def)
  moreover have "parse_elements m' ?more = Some (vs, rest)"
  proof (rule cons.IH [OF sw])
    show "2 * length ?more < m'"
      using le unfolding whole by simp
    show "\<And>v n ws rest. v \<in> set vs \<Longrightarrow> \<forall>c\<in>set ws. is_ws c \<Longrightarrow>
       2 * length (ws @ S v @ rest) \<le> n \<Longrightarrow> parse_value n (ws @ S v @ rest) = Some (v, rest)"
      using cons.prems(3) by simp
  qed
  ultimately show ?case
    unfolding whole by (simp add: m cons_result_def)
qed

lemma parse_member_step:
  assumes ws: "\<forall>c\<in>set ws. is_ws c"
    and v: "parse_value m' (CHR '' '' # sv @ after) = Some (v, after)"
  shows "parse_members (Suc m')
           (ws @ CHR 0x22 # concat (map escape_char k) @ CHR 0x22 # CHR '':'' # CHR '' '' # sv @ after)
         = (case skip_ws after of
              [] \<Rightarrow> None
            | c # cs \<Rightarrow>
                if c = CHR '','' then cons_result (k, v) (parse_members m' cs)
                else if c = CHR ''}'' then Some ([(k, v)], cs)
                else None)"
proof -
  have 1: "skip_ws (ws @ CHR 0x22 # concat (map escape_char k) @ CHR 0x22 # CHR '':'' # CHR '' '' # sv @ after)
      = CHR 0x22 # concat (map escape_char k) @ CHR 0x22 # CHR '':'' # CHR '' '' # sv @ after"
    using ws by (intro skip_ws_prefix) (simp_all add: is_ws_def)
  have 2: "skip_ws (CHR '':'' # CHR '' '' # sv @ after) = CHR '':'' # CHR '' '' # sv @ after"
    using skip_ws_prefix [of "[]" "CHR '':''"] by (simp add: is_ws_def)
  show ?thesis
    by (simp add: 1 2 v parse_string_body_quoted)
qed

lemma parse_members_joined:
  assumes IH: "\<And>k v n ws rest. (k, v) \<in> set kvs \<Longrightarrow> \<forall>c\<in>set ws. is_ws c \<Longrightarrow>
      2 * length (ws @ S v @ rest) \<le> n \<Longrightarrow> parse_value n (ws @ S v @ rest) = Some (v, rest)"
    and ne: "kvs \<noteq> []"
    and sw: "\<forall>c\<in>set sw. is_ws c" and tw: "\<forall>c\<in>set tw. is_ws c"
  shows "\<forall>c\<in>set ws. is_ws c \<Longrightarrow>
      2 * length (ws @ join_with (CHR '','' # sw)
           (map (\<lambda>(k, v). QuoteJSONString k @ '': '' @ S v) kvs) @ tw @ CHR ''}'' # rest) < m \<Longrightarrow>
      parse_members m (ws @ join_with (CHR '','' # sw)
           (map (\<lambda>(k, v). QuoteJSONString k @ '': '' @ S v) kvs) @ tw @ CHR ''}'' # rest)
        = Some (kvs, rest)"
  using ne IH
proof (induction kvs arbitrary: m ws rule: list_nonempty_induct)
  case (single kv)
  obtain k v where kv: "kv = (k, v)" by (cases kv)
  define after where "after = tw @ CHR ''}'' # rest"
  define sv where "sv = S v"
  let ?whole = "ws @ join_with (CHR '','' # sw)
           (map (\<lambda>(k, v). QuoteJSONString k @ '': '' @ S v) [kv]) @ tw @ CHR ''}'' # rest"
  from length_Suc_fuel [OF single.prems(2)] obtain m' where m: "m = Suc m'"
    and le: "2 * length ?whole \<le> m'"
    by blast
  have whole: "?whole =
      ws @ CHR 0x22 # concat (map escape_char k) @ CHR 0x22 # CHR '':'' # CHR '' '' # sv @ after"
    by (simp add: kv QuoteJSONString_def after_def sv_def)
  have "parse_value m' ([CHR '' ''] @ S v @ after) = Some (v, after)"
    using le unfolding whole by (intro single.prems(3) [of k]) (simp_all add: kv is_ws_def sv_def)
  then have 3: "parse_value m' (CHR '' '' # sv @ after) = Some (v, after)"
    by (simp add: sv_def)
  have 4: "skip_ws after = CHR ''}'' # rest"
    unfolding after_def using tw by (intro skip_ws_prefix) (simp_all add: is_ws_def)
  show ?case
    unfolding m whole parse_member_step [OF single.prems(1) 3] by (simp add: 4 kv)
next
  case (cons kv kvs)
  obtain k v where kv: "kv = (k, v)" by (cases kv)
  from cons.hyps obtain kv' kvs' where kvs: "kvs = kv' # kvs'"
    by (cases kvs) auto
  define more where "more = sw @ join_with (CHR '','' # sw)
      (map (\<lambda>(k, v). QuoteJSONString k @ '': '' @ S v) kvs) @ tw @ CHR ''}'' # rest"
  define after where "after = CHR '','' # more"
  define sv where "sv = S v"
  let ?whole = "ws @ join_with (CHR '','' # sw)
           (map (\<lambda>(k, v). QuoteJSONString k @ '': '' @ S v) (kv # kvs)) @ tw @ CHR ''}'' # rest"
  from length_Suc_fuel [OF cons.prems(2)] obtain m' where m: "m = Suc m'"
    and le: "2 * length ?whole \<le> m'"
    by blast
  have whole: "?whole =
      ws @ CHR 0x22 # concat (map escape_char k) @ CHR 0x22 # CHR '':'' # CHR '' '' # sv @ after"
    by (simp add: kv kvs QuoteJSONString_def after_def more_def sv_def)
  have "parse_value m' ([CHR '' ''] @ S v @ after) = Some (v, after)"
    using le unfolding whole by (intro cons.prems(3) [of k]) (simp_all add: kv is_ws_def sv_def)
  then have 3: "parse_value m' (CHR '' '' # sv @ after) = Some (v, after)"
    by (simp add: sv_def)
  have 4: "skip_ws after = CHR '','' # more"
    unfolding after_def using skip_ws_prefix [of "[]" "CHR '',''" more] by (simp add: is_ws_def)
  have ih: "parse_value n (ws @ S v @ rest) = Some (v, rest)"
    if "(k, v) \<in> set kvs" "\<forall>c\<in>set ws. is_ws c" "2 * length (ws @ S v @ rest) \<le> n"
    for k v n ws rest
    using that by (intro cons.prems(3) [of k]) simp_all
  have bound: "2 * length (sw @ join_with (CHR '','' # sw)
      (map (\<lambda>(k, v). QuoteJSONString k @ '': '' @ S v) kvs) @ tw @ CHR ''}'' # rest) < m'"
    using le unfolding whole by (simp add: after_def more_def)
  have 5: "parse_members m' more = Some (kvs, rest)"
    unfolding more_def using sw bound ih by (rule cons.IH)
  show ?case
    unfolding m whole parse_member_step [OF cons.prems(1) 3] by (simp add: 4 5 kv cons_result_def)
qed

lemma parse_value_serialized:
  "\<forall>c\<in>set ws. is_ws c \<Longrightarrow>
   2 * length (ws @ SerializeJSONProperty d v @ rest) \<le> n \<Longrightarrow>
   parse_value n (ws @ SerializeJSONProperty d v @ rest) = Some (v, rest)"
proof (induction v arbitrary: n d ws rest)
  case JNull
  then obtain n' where n: "n = Suc n'" by (cases n) simp_all
  have "skip_ws (ws @ CHR ''n'' # ''ull'' @ rest) = CHR ''n'' # ''ull'' @ rest"
    using JNull.prems(1) by (intro skip_ws_prefix) (simp_all add: is_ws_def)
  then show ?case
    by (simp add: n)
next
  case (JString s)
  then obtain n' where n: "n = Suc n'" by (cases n) (simp_all add: QuoteJSONString_def)
  have "skip_ws (ws @ CHR 0x22 # concat (map escape_char s) @ CHR 0x22 # rest)
      = CHR 0x22 # concat (map escape_char s) @ CHR 0x22 # rest"
    using JString.prems(1) by (intro skip_ws_prefix) (simp_all add: is_ws_def)
  then show ?case
    by (simp add: n QuoteJSONString_def parse_string_body_quoted)
next
  case (JArray vs)
  show ?case
  proof (cases "vs = []")
    case True
    from JArray.prems(2) obtain n' where n: "n = Suc n'" by (cases n) (simp_all add: True)
    have 1: "skip_ws (ws @ CHR ''['' # CHR '']'' # rest) = CHR ''['' # CHR '']'' # rest"
      using JArray.prems(1) by (intro skip_ws_prefix) (simp_all add: is_ws_def)
    have 2: "skip_ws (CHR '']'' # rest) = CHR '']'' # rest"
      using skip_ws_prefix [of "[]" "CHR '']''"] by (simp add: is_ws_def)
    show ?thesis
      by (simp add: True n 1 2)
  next
    case False
    define ind where "ind = CHR 0x0A # indent_of (d + 1)"
    define tw where "tw = CHR 0x0A # indent_of d"
    define body where "body = ind @ join_with (CHR '','' # ind)
        (map (SerializeJSONProperty (d + 1)) vs) @ tw @ CHR '']'' # rest"
    have ind: "\<forall>c\<in>set ind. is_ws c" and tw: "\<forall>c\<in>set tw. is_ws c"
      using indent_of_ws by (simp_all add: ind_def tw_def is_ws_def)
    have whole: "ws @ SerializeJSONProperty d (JArray vs) @ rest = ws @ CHR ''['' # body"
      using False by (simp add: body_def ind_def tw_def)
    from JArray.prems(2) obtain n' where n: "n = Suc n'" and le: "2 * length body < n'"
      unfolding whole by (cases n) auto
    have 1: "skip_ws (ws @ CHR ''['' # body) = CHR ''['' # body"
      using JArray.prems(1) by (intro skip_ws_prefix) (simp_all add: is_ws_def)
    from False obtain v vs' where vs: "vs = v # vs'" by (cases vs) auto
    obtain c s where hd: "SerializeJSONProperty (Suc d) v = c # s" "\<not> is_ws c" "c \<noteq> CHR '']''"
      using serialize_head by blast
    have "\<exists>t. body = ind @ c # t"
      by (cases vs') (simp_all add: body_def vs hd)
    then obtain t where "body = ind @ c # t" ..
    then have 2: "skip_ws body = c # t"
      using ind hd(2) by (simp add: skip_ws_prefix)
    have ih: "parse_value n (ws @ SerializeJSONProperty (d + 1) v @ rest) = Some (v, rest)"
      if "v \<in> set vs" "\<forall>c\<in>set ws. is_ws c"
        "2 * length (ws @ SerializeJSONProperty (d + 1) v @ rest) \<le> n" for v n ws rest
      using that by (intro JArray.IH) simp_all
    have 3: "parse_elements n' body = Some (vs, rest)"
      unfolding body_def using ih False ind tw ind le [unfolded body_def]
      by (rule parse_elements_joined)
    show ?thesis
      unfolding whole n by (simp add: 1 2 3 hd(3))
  qed
next
  case (JObject kvs)
  show ?case
  proof (cases "kvs = []")
    case True
    from JObject.prems(2) obtain n' where n: "n = Suc n'" by (cases n) (simp_all add: True)
    have 1: "skip_ws (ws @ CHR ''{'' # CHR ''}'' # rest) = CHR ''{'' # CHR ''}'' # rest"
      using JObject.prems(1) by (intro skip_ws_prefix) (simp_all add: is_ws_def)
    have 2: "skip_ws (CHR ''}'' # rest) = CHR ''}'' # rest"
      using skip_ws_prefix [of "[]" "CHR ''}''"] by (simp add: is_ws_def)
    show ?thesis
      by (simp add: True n 1 2)
  next
    case False
    define ind where "ind = CHR 0x0A # indent_of (d + 1)"
    define tw where "tw = CHR 0x0A # indent_of d"
    define body where "body = ind @ join_with (CHR '','' # ind)
        (map (\<lambda>(k, v). QuoteJSONString k @ '': '' @ SerializeJSONProperty (d + 1) v) kvs)
        @ tw @ CHR ''}'' # rest"
    have ind: "\<forall>c\<in>set ind. is_ws c" and tw: "\<forall>c\<in>set tw. is_ws c"
      using indent_of_ws by (simp_all add: ind_def tw_def is_ws_def)
    have whole: "ws @ SerializeJSONProperty d (JObject kvs) @ rest = ws @ CHR ''{'' # body"
      using False by (simp add: body_def ind_def tw_def)
    from JObject.prems(2) obtain n' where n: "n = Suc n'" and le: "2 * length body < n'"
      unfolding whole by (cases n) auto
    have 1: "skip_ws (ws @ CHR ''{'' # body) = CHR ''{'' # body"
      using JObject.prems(1) by (intro skip_ws_prefix) (simp_all add: is_ws_def)
    from False obtain k v kvs' where kvs: "kvs = (k, v) # kvs'" by (cases kvs) auto
    have "\<exists>t. body = ind @ CHR 0x22 # t"
      by (cases kvs') (simp_all add: body_def kvs QuoteJSONString_def)
    then obtain t where "body = ind @ CHR 0x22 # t" ..
    then have 2: "skip_ws body = CHR 0x22 # t"
      using ind by (simp add: skip_ws_prefix is_ws_def)
    have ih: "parse_value n (ws @ SerializeJSONProperty (d + 1) v @ rest) = Some (v, rest)"
      if "(k, v) \<in> set kvs" "\<forall>c\<in>set ws. is_ws c"
        "2 * length (ws @ SerializeJSONProperty (d + 1) v @ rest) \<le> n" for k v n ws rest
      using that by (intro JObject.IH [of "(k, v)"]) simp_all
    have 3: "parse_members n' body = Some (kvs, rest)"
      unfolding body_def using ih False ind tw ind le [unfolded body_def]
      by (rule parse_members_joined)
    show ?thesis
      unfolding whole n by (simp add: 1 2 3)
  qed
qed

lemma JSON_parse_stringify: "JSON_parse (SerializeJSONProperty 0 v) = Some v"
proof -
  have "parse_value (2 * length (SerializeJSONProperty 0 v))
          ([] @ SerializeJSONProperty 0 v @ []) = Some (v, [])"
    by (rule parse_value_serialized) simp_all
  then show ?thesis
    by (simp add: JSON_parse_def skip_ws_def)
qed

lemma json_slot_slot_json: "json_slot (slot_json x) = Some x"
  by (cases x) (simp_all add: slot_json_def)

lemma JSON_parse_JSON_stringify: "JSON_parse (JSON_stringify v) = Some v"
  by (simp only: JSON_stringify_def JSON_parse_stringify)

lemma import_exported:
  "import_document (JSON_stringify (dataToExport s)) = Some (images s, text_value s)"
proof -
  have "read_slots (map slot_json xs) = Some xs" for xs
    by (induction xs) (simp_all add: json_slot_slot_json)
  then show ?thesis
    unfolding import_document_def JSON_parse_JSON_stringify
    by (simp add: dataToExport_def)
qed

text \<open>
  Claim C7. \<^verbatim>\<open>handleDownload\<close> offers, under the name \<^verbatim>\<open>nine-picture-grid.json\<close>, a
  document that reads back as an object with exactly the two keys \<^verbatim>\<open>images\<close> and
  \<^verbatim>\<open>text\<close>; its \<^verbatim>\<open>images\<close> array has the entries of the image array of the page, in
  the same order and of the same number (nine, when the page holds nine), and its
  \<^verbatim>\<open>text\<close> is the text of the page, character for character. The state of the page
  is not changed.
\<close>

theorem export_document:
  "(let doc = JSON_stringify (dataToExport s)
    in handleDownload s =
         (s, [Download ''nine-picture-grid.json'' doc,
              Toast ''Download started'' ''Your grid data is being downloaded'' False]) \<and>
       JSON_parse doc =
         Some (JObject [(''images'', JArray (map slot_json (images s))),
                        (''text'', JString (text_value s))]) \<and>
       import_document doc = Some (images s, text_value s) \<and>
       (length (images s) = 9 \<longrightarrow> length (map slot_json (images s)) = 9) \<and>
       (\<forall>i<length (images s). map slot_json (images s) ! i = slot_json (images s ! i)))"
  unfolding Let_def JSON_parse_JSON_stringify import_exported
  by (simp add: handleDownload_def dataToExport_def)

text \<open>The export of a grid with one image reads back as that grid.\<close>

theorem export_document_witness:
  "length (images example_state) = 9 \<and>
   length (map slot_json (images example_state)) = 9 \<and>
   import_document (JSON_stringify (dataToExport example_state))
     = Some (images example_state, text_value example_state)"
proof -
  note R = export_document [of example_state, unfolded Let_def]
  have nine: "length (images example_state) = 9"
    by (simp add: example_state_def)
  from R [THEN conjunct2, THEN conjunct2, THEN conjunct2, THEN conjunct1, rule_format, OF nine]
    R [THEN conjunct2, THEN conjunct2, THEN conjunct1] nine
  show ?thesis
    by (simp only: simp_thms)
qed

end
